theory Spec2Isabelle
  imports Main "HOL-Library.Word"
begin

unbundle bit_operations_syntax

section \<open>Levels, entries and errors\<close>

text \<open>
  Modelled from the spec: the declaration of \<open>Level\<close> (with \<open>_minLevel\<close> and
  \<open>_maxLevel\<close>) is not among the sources. The spec gives the seven severities and
  their order, Debug < Info < Warn < Error < DPanic < Panic < Fatal; sampler.go says that
  \<open>_numLevels\<close> counts the levels from debug to fatal.
\<close>

datatype level =
  DebugLevel | InfoLevel | WarnLevel | ErrorLevel | DPanicLevel | PanicLevel | FatalLevel

text \<open>\<open>lvl - _minLevel\<close>: the position of a level, counted from \<open>DebugLevel\<close>.\<close>

fun level_index :: "level \<Rightarrow> nat" where
  "level_index DebugLevel = 0"
| "level_index InfoLevel = 1"
| "level_index WarnLevel = 2"
| "level_index ErrorLevel = 3"
| "level_index DPanicLevel = 4"
| "level_index PanicLevel = 5"
| "level_index FatalLevel = 6"

definition level_gt :: "level \<Rightarrow> level \<Rightarrow> bool" where
  "level_gt a b = (level_index b < level_index a)"

type_synonym int64 = "64 word"
type_synonym uint64 = "64 word"
type_synonym uint32 = "32 word"

record EntryCaller =
  Defined :: bool
  PC :: nat
  File :: string
  Line :: int

text \<open>\<open>Time\<close> holds \<open>t.UnixNano()\<close>, the only reading of the time the code takes.\<close>

record Entry =
  Level :: level
  Time :: int64
  LoggerName :: string
  Message :: string
  Caller :: EntryCaller
  Stack :: string

text \<open>
  Modelled from the spec: \<open>Field\<close> is declared outside the sources; the spec calls it
  an opaque key-tagged value.
\<close>

datatype Field = Field string string

text \<open>
  A Go \<open>error\<close> is \<open>err option\<close>, \<open>None\<close> for \<open>nil\<close>. \<open>Errorf\<close> keeps the format
  string and its arguments apart, so that no formatting verb has to be interpreted.
  \<open>MultiError\<close> is the flat list that go.uber.org/multierr builds.
\<close>

datatype err =
    ErrorString string
  | Errorf string "fmt_arg list"
  | MultiError "err list"
and fmt_arg =
    ArgString string
  | ArgByte char
  | ArgError err

type_synonym error = "err option"

definition errors_of :: "err \<Rightarrow> err list" where
  "errors_of e = (case e of MultiError es \<Rightarrow> es | _ \<Rightarrow> [e])"

text \<open>
  \<open>multierr.Append\<close> (external library): nil is the unit, and two errors are joined
  into one flat list of the errors they hold, left before right.
\<close>

fun multierr_Append :: "error \<Rightarrow> error \<Rightarrow> error" where
  "multierr_Append None right = right"
| "multierr_Append (Some l) None = Some l"
| "multierr_Append (Some l) (Some r) = Some (MultiError (errors_of l @ errors_of r))"

datatype 'a result = Ok 'a | Panic string

section \<open>External collaborators: destinations and encoders\<close>

text \<open>
  What is handed to a destination: the bytes of an encoded entry, or one of the
  diagnostics that \<open>fmt.Fprintf\<close> writes to the error output (their text holds
  \<open>time.Now()\<close>, so it is kept symbolic).
\<close>

datatype payload =
    Bytes string
  | ReuseDiagnostic Entry
  | WriteErrorReport err
  | CallerFailure

datatype event =
    EvWrite nat payload
  | EvSync nat
  | EvFree string

text \<open>
  A \<open>WriteSyncer\<close> is external. It is known by an identity; each call is recorded in
  the trace, and whether the call fails may depend on everything done before.
\<close>

record WriteSyncer =
  ws_id :: nat
  ws_write_err :: "event list \<Rightarrow> payload \<Rightarrow> error"
  ws_sync_err :: "event list \<Rightarrow> error"

text \<open>
  An \<open>Encoder\<close> is external: it holds the fields bound so far, \<open>Clone\<close> copies it,
  and \<open>EncodeEntry\<close> gives a buffer or an error.
\<close>

record Encoder =
  enc_context :: "Field list"
  enc_encode :: "Field list \<Rightarrow> Entry \<Rightarrow> Field list \<Rightarrow> err + string"

definition Clone :: "Encoder \<Rightarrow> Encoder" where
  "Clone e = e"

definition addFields :: "Encoder \<Rightarrow> Field list \<Rightarrow> Encoder" where
  "addFields e fs = e\<lparr>enc_context := enc_context e @ fs\<rparr>"

definition EncodeEntry :: "Encoder \<Rightarrow> Entry \<Rightarrow> Field list \<Rightarrow> err + string" where
  "EncodeEntry e ent fs = enc_encode e (enc_context e) ent fs"

section \<open>Cores\<close>

text \<open>
  The implementations of the \<open>Core\<close> interface in the sources: \<open>nopCore\<close>, \<open>ioCore\<close>,
  \<open>multiCore\<close> and \<open>sampler\<close>. A sampler holds the address of its counter table, which
  lives in the store, since \<open>With\<close> shares it.
\<close>

datatype core =
    NopCore
  | IoCore (enab: "level \<Rightarrow> bool") (enc: Encoder) (out: WriteSyncer)
  | MultiCore "core list"
  | Sampler (inner: core) (counts: nat) (tick: int64) (first: uint64) (thereafter: uint64)

datatype CheckWriteAction = WriteThenNoop | WriteThenPanic | WriteThenFatal

record CheckedEntry =
  Entry :: Entry
  ErrorOutput :: "WriteSyncer option"
  dirty :: bool
  should :: CheckWriteAction
  cores :: "core list"

record counter =
  resetAt :: int64
  counter :: uint64

type_synonym counters = "nat \<times> nat \<Rightarrow> counter"

text \<open>
  The state the code works on: the trace of calls to destinations, the store of counter
  tables with the next free address, and the pool of checked entries.
\<close>

record world =
  trace :: "event list"
  heap :: "nat \<Rightarrow> counters"
  next_addr :: nat
  cePool :: "CheckedEntry list"

definition ws_Write :: "WriteSyncer \<Rightarrow> payload \<Rightarrow> world \<Rightarrow> error \<times> world" where
  "ws_Write ws p w =
     (ws_write_err ws (trace w) p, w\<lparr>trace := trace w @ [EvWrite (ws_id ws) p]\<rparr>)"

definition ws_Sync :: "WriteSyncer \<Rightarrow> world \<Rightarrow> error \<times> world" where
  "ws_Sync ws w = (ws_sync_err ws (trace w), w\<lparr>trace := trace w @ [EvSync (ws_id ws)]\<rparr>)"

definition buf_Free :: "string \<Rightarrow> world \<Rightarrow> world" where
  "buf_Free buf w = w\<lparr>trace := trace w @ [EvFree buf]\<rparr>"

subsection \<open>Enabled and With\<close>

fun core_Enabled :: "core \<Rightarrow> level \<Rightarrow> bool"
  and multiCore_Enabled :: "core list \<Rightarrow> level \<Rightarrow> bool" where
  "core_Enabled NopCore lvl = False"
| "core_Enabled (IoCore en e ws) lvl = en lvl"
| "core_Enabled (MultiCore mc) lvl = multiCore_Enabled mc lvl"
| "core_Enabled (Sampler c a t f m) lvl = core_Enabled c lvl"
| "multiCore_Enabled [] lvl = False"
| "multiCore_Enabled (c # mc) lvl =
     (if core_Enabled c lvl then True else multiCore_Enabled mc lvl)"

fun core_With :: "core \<Rightarrow> Field list \<Rightarrow> core"
  and multiCore_With :: "core list \<Rightarrow> Field list \<Rightarrow> core list" where
  "core_With NopCore fs = NopCore"
| "core_With (IoCore en e ws) fs = IoCore en (addFields (Clone e) fs) ws"
| "core_With (MultiCore mc) fs = MultiCore (multiCore_With mc fs)"
| "core_With (Sampler c a t f m) fs = Sampler (core_With c fs) a t f m"
| "multiCore_With [] fs = []"
| "multiCore_With (c # mc) fs = core_With c fs # multiCore_With mc fs"

subsection \<open>Write and Sync\<close>

definition ioCore_Sync :: "WriteSyncer \<Rightarrow> world \<Rightarrow> error \<times> world" where
  "ioCore_Sync ws w = ws_Sync ws w"

definition ioCore_Write ::
  "Encoder \<Rightarrow> WriteSyncer \<Rightarrow> Entry \<Rightarrow> Field list \<Rightarrow> world \<Rightarrow> error \<times> world" where
  "ioCore_Write e ws ent fs w =
     (case EncodeEntry e ent fs of
        Inl er \<Rightarrow> (Some er, w)
      | Inr buf \<Rightarrow>
          (case ws_Write ws (Bytes buf) w of
             (er, w1) \<Rightarrow>
               (let w2 = buf_Free buf w1 in
                if er \<noteq> None then (er, w2)
                else if level_gt (Level ent) ErrorLevel
                  then (None, snd (ioCore_Sync ws w2))
                  else (None, w2))))"

fun core_Write :: "core \<Rightarrow> Entry \<Rightarrow> Field list \<Rightarrow> world \<Rightarrow> error \<times> world"
  and multiCore_Write ::
    "core list \<Rightarrow> Entry \<Rightarrow> Field list \<Rightarrow> error \<Rightarrow> world \<Rightarrow> error \<times> world" where
  "core_Write NopCore ent fs w = (None, w)"
| "core_Write (IoCore en e ws) ent fs w = ioCore_Write e ws ent fs w"
| "core_Write (MultiCore mc) ent fs w = multiCore_Write mc ent fs None w"
| "core_Write (Sampler c a t f m) ent fs w = core_Write c ent fs w"
| "multiCore_Write [] ent fs er w = (er, w)"
| "multiCore_Write (c # mc) ent fs er w =
     (case core_Write c ent fs w of
        (e1, w1) \<Rightarrow> multiCore_Write mc ent fs (multierr_Append er e1) w1)"

fun core_Sync :: "core \<Rightarrow> world \<Rightarrow> error \<times> world"
  and multiCore_Sync :: "core list \<Rightarrow> error \<Rightarrow> world \<Rightarrow> error \<times> world" where
  "core_Sync NopCore w = (None, w)"
| "core_Sync (IoCore en e ws) w = ioCore_Sync ws w"
| "core_Sync (MultiCore mc) w = multiCore_Sync mc None w"
| "core_Sync (Sampler c a t f m) w = core_Sync c w"
| "multiCore_Sync [] er w = (er, w)"
| "multiCore_Sync (c # mc) er w =
     (case core_Sync c w of (e1, w1) \<Rightarrow> multiCore_Sync mc (multierr_Append er e1) w1)"

subsection \<open>The counters of the sampler\<close>

definition numLevels :: nat where
  "numLevels = 7"

definition countersPerLevel :: nat where
  "countersPerLevel = 4096"

definition newCounters :: counters where
  "newCounters = (\<lambda>_. \<lparr>resetAt = 0, counter = 0\<rparr>)"

definition fnv32a :: "string \<Rightarrow> uint32" where
  "fnv32a s =
     foldl (\<lambda>hash c. (hash XOR word_of_nat (of_char c)) * 16777619) 2166136261 s"

text \<open>\<open>counters.get\<close>: the indices \<open>(i, j)\<close> of the counter of a level and a key.\<close>

definition counters_get :: "level \<Rightarrow> string \<Rightarrow> nat \<times> nat" where
  "counters_get lvl key = (level_index lvl, unat (fnv32a key) mod countersPerLevel)"

text \<open>
  \<open>IncCheckReset\<close> run by one goroutine at a time: the compare-and-swap then finds the
  value that was loaded, so the branch for a lost race is not taken. The result is the
  count returned and the counter as it is left. The comparison is the signed one of
  \<open>int64\<close>; the sum for the new deadline and the increment wrap around.
\<close>

definition IncCheckReset :: "counter \<Rightarrow> int64 \<Rightarrow> int64 \<Rightarrow> uint64 \<times> counter" where
  "IncCheckReset c t tk =
     (let tn = t; resetAfter = resetAt c in
      if word_sless tn resetAfter
      then (counter c + 1, c\<lparr>counter := counter c + 1\<rparr>)
      else (let newResetAfter = tn + tk in
            (1, c\<lparr>counter := 1, resetAt := newResetAfter\<rparr>)))"

text \<open>
  \<open>NewSampler\<close> allocates a fresh counter table. \<open>first\<close> and \<open>thereafter\<close> are Go
  \<open>int\<close>s, taken as 64 bits wide; \<open>uint64(first)\<close> keeps the bits.
\<close>

definition NewSampler :: "core \<Rightarrow> int64 \<Rightarrow> int64 \<Rightarrow> int64 \<Rightarrow> world \<Rightarrow> core \<times> world" where
  "NewSampler c tk fst_n thereafter_n w =
     (Sampler c (next_addr w) tk fst_n thereafter_n,
      w\<lparr>heap := (heap w)(next_addr w := newCounters), next_addr := Suc (next_addr w)\<rparr>)"

text \<open>
  The condition of the \<open>if\<close> that drops an entry in \<open>sampler.Check\<close>:
  \<open>n > s.first && (n-s.first)%s.thereafter != 0\<close>. The remainder is only computed when
  \<open>n > s.first\<close>, and Go panics on a zero divisor.
\<close>

definition uint64_mod :: "uint64 \<Rightarrow> uint64 \<Rightarrow> uint64 result" where
  "uint64_mod a b = (if b = 0 then Panic ''runtime error: integer divide by zero''
                     else Ok (a mod b))"

definition sampler_drops :: "uint64 \<Rightarrow> uint64 \<Rightarrow> uint64 \<Rightarrow> bool result" where
  "sampler_drops n f m =
     (if f < n
      then (case uint64_mod (n - f) m of Panic p \<Rightarrow> Panic p | Ok r \<Rightarrow> Ok (r \<noteq> 0))
      else Ok False)"

subsection \<open>Checked entries and their pool\<close>

text \<open>
  Modelled from the spec: the zero value of \<open>Level\<close> in \<open>Entry{}\<close> depends on the
  missing declaration; it is taken to be \<open>InfoLevel\<close>. No claim reads it.
\<close>

definition zero_Entry :: Entry where
  "zero_Entry = \<lparr>Level = InfoLevel, Time = 0, LoggerName = [], Message = [],
     Caller = \<lparr>Defined = False, PC = 0, File = [], Line = 0\<rparr>, Stack = []\<rparr>"

definition reset :: "CheckedEntry \<Rightarrow> CheckedEntry" where
  "reset ce = ce\<lparr>Entry := zero_Entry, ErrorOutput := None, dirty := False,
     should := WriteThenNoop, cores := []\<rparr>"

text \<open>
  The entry that the pool's \<open>New\<close> builds. Its four preallocated slots hold no core and
  \<open>reset\<close> cuts the slice to length zero, so the list is empty from the start.
\<close>

definition new_CheckedEntry :: CheckedEntry where
  "new_CheckedEntry = \<lparr>Entry = zero_Entry, ErrorOutput = None, dirty = False,
     should = WriteThenNoop, cores = []\<rparr>"

definition getCheckedEntry :: "world \<Rightarrow> CheckedEntry \<times> world" where
  "getCheckedEntry w =
     (case cePool w of
        [] \<Rightarrow> (reset new_CheckedEntry, w)
      | ce # rest \<Rightarrow> (reset ce, w\<lparr>cePool := rest\<rparr>))"

definition putCheckedEntry :: "CheckedEntry option \<Rightarrow> world \<Rightarrow> world" where
  "putCheckedEntry ce w =
     (case ce of None \<Rightarrow> w | Some c \<Rightarrow> w\<lparr>cePool := c # cePool w\<rparr>)"

definition AddCore ::
  "CheckedEntry option \<Rightarrow> Entry \<Rightarrow> core \<Rightarrow> world \<Rightarrow> CheckedEntry \<times> world" where
  "AddCore ce ent c w =
     (case (case ce of
              None \<Rightarrow> (case getCheckedEntry w of (ce1, w1) \<Rightarrow> (ce1\<lparr>Entry := ent\<rparr>, w1))
            | Some ce0 \<Rightarrow> (ce0, w)) of
        (ce2, w2) \<Rightarrow> (ce2\<lparr>cores := cores ce2 @ [c]\<rparr>, w2))"

definition Should ::
  "CheckedEntry option \<Rightarrow> Entry \<Rightarrow> CheckWriteAction \<Rightarrow> world \<Rightarrow> CheckedEntry \<times> world" where
  "Should ce ent sh w =
     (case (case ce of
              None \<Rightarrow> (case getCheckedEntry w of (ce1, w1) \<Rightarrow> (ce1\<lparr>Entry := ent\<rparr>, w1))
            | Some ce0 \<Rightarrow> (ce0, w)) of
        (ce2, w2) \<Rightarrow> (ce2\<lparr>should := sh\<rparr>, w2))"

subsection \<open>Check\<close>

fun core_Check ::
    "core \<Rightarrow> Entry \<Rightarrow> CheckedEntry option \<Rightarrow> world \<Rightarrow> CheckedEntry option result \<times> world"
  and multiCore_Check ::
    "core list \<Rightarrow> Entry \<Rightarrow> CheckedEntry option \<Rightarrow> world \<Rightarrow> CheckedEntry option result \<times> world"
  where
  "core_Check NopCore ent ce w = (Ok ce, w)"
| "core_Check (IoCore en e ws) ent ce w =
     (if en (Level ent)
      then (case AddCore ce ent (IoCore en e ws) w of (ce1, w1) \<Rightarrow> (Ok (Some ce1), w1))
      else (Ok ce, w))"
| "core_Check (MultiCore mc) ent ce w = multiCore_Check mc ent ce w"
| "core_Check (Sampler c a tk f m) ent ce w =
     (if \<not> core_Enabled c (Level ent) then (Ok ce, w)
      else
        (let ij = counters_get (Level ent) (Message ent) in
         case IncCheckReset (heap w a ij) (Time ent) tk of
           (n, cnt) \<Rightarrow>
             (let w1 = w\<lparr>heap := (heap w)(a := (heap w a)(ij := cnt))\<rparr> in
              case sampler_drops n f m of
                Panic p \<Rightarrow> (Panic p, w1)
              | Ok dropped \<Rightarrow> if dropped then (Ok ce, w1) else core_Check c ent ce w1)))"
| "multiCore_Check [] ent ce w = (Ok ce, w)"
| "multiCore_Check (c # mc) ent ce w =
     (case core_Check c ent ce w of
        (Panic p, w1) \<Rightarrow> (Panic p, w1)
      | (Ok ce1, w1) \<Rightarrow> multiCore_Check mc ent ce1 w1)"

subsection \<open>The constructors of the no-op core and of the tee\<close>

definition NewNopCore :: core where
  "NewNopCore = NopCore"

definition NewTee :: "core list \<Rightarrow> core" where
  "NewTee cs =
     (case cs of
        [] \<Rightarrow> NewNopCore
      | [c] \<Rightarrow> c
      | _ \<Rightarrow> MultiCore cs)"

subsection \<open>Counter tables in use, and runs of Check\<close>

text \<open>
  The addresses of the counter tables of the samplers inside a core. \<open>NewSampler\<close>
  gives a sampler a fresh table and \<open>With\<close> keeps the table while rebuilding what is
  inside, so the table of a sampler is never that of a sampler inside it.
\<close>

fun sampler_tables :: "core \<Rightarrow> nat set"
  and sampler_tables_list :: "core list \<Rightarrow> nat set" where
  "sampler_tables NopCore = {}"
| "sampler_tables (IoCore en e ws) = {}"
| "sampler_tables (MultiCore mc) = sampler_tables_list mc"
| "sampler_tables (Sampler c a tk f m) = insert a (sampler_tables c)"
| "sampler_tables_list [] = {}"
| "sampler_tables_list (c # mc) = sampler_tables c \<union> sampler_tables_list mc"

definition set_counter :: "nat \<Rightarrow> nat \<times> nat \<Rightarrow> counter \<Rightarrow> world \<Rightarrow> world" where
  "set_counter a ij cnt w = w\<lparr>heap := (heap w)(a := (heap w a)(ij := cnt))\<rparr>"

text \<open>A run of \<open>Check\<close> calls on one core, each from the world the call before left.\<close>

fun Checks ::
  "core \<Rightarrow> (Entry \<times> CheckedEntry option) list \<Rightarrow> world
     \<Rightarrow> (CheckedEntry option result \<times> world) list" where
  "Checks s [] w = []"
| "Checks s ((ent, ce) # rest) w =
     (let r = core_Check s ent ce w in r # Checks s rest (snd r))"

section \<open>Writing a checked entry\<close>

datatype outcome = Returned | Panicked string | Exited

text \<open>The loop of \<open>CheckedEntry.Write\<close> over \<open>ce.cores\<close>.\<close>

fun ce_write_cores ::
  "core list \<Rightarrow> Entry \<Rightarrow> Field list \<Rightarrow> error \<Rightarrow> world \<Rightarrow> error \<times> world" where
  "ce_write_cores [] ent fs er w = (er, w)"
| "ce_write_cores (c # cs) ent fs er w =
     (case core_Write c ent fs w of
        (e1, w1) \<Rightarrow> ce_write_cores cs ent fs (multierr_Append er e1) w1)"

text \<open>
  \<open>fmt.Fprintf\<close> to a destination followed by its \<open>Sync\<close>, the results of both
  dropped, as the code does with its diagnostics.
\<close>

definition report :: "WriteSyncer \<Rightarrow> payload \<Rightarrow> world \<Rightarrow> world" where
  "report eo p w = snd (ws_Sync eo (snd (ws_Write eo p w)))"

text \<open>
  \<open>CheckedEntry.Write\<close> on a pointer: the result is how the call ends, the entry as
  the call leaves it (\<open>None\<close> for the nil pointer), and the world.
\<close>

definition CheckedEntry_Write ::
  "CheckedEntry option \<Rightarrow> Field list \<Rightarrow> world \<Rightarrow> outcome \<times> CheckedEntry option \<times> world" where
  "CheckedEntry_Write cep fs w =
     (case cep of
        None \<Rightarrow> (Returned, None, w)
      | Some ce \<Rightarrow>
          if dirty ce then
            (case ErrorOutput ce of
               None \<Rightarrow> (Returned, Some ce, w)
             | Some eo \<Rightarrow> (Returned, Some ce, report eo (ReuseDiagnostic (Entry ce)) w))
          else
            (let ce1 = ce\<lparr>dirty := True\<rparr> in
             case ce_write_cores (cores ce1) (Entry ce1) fs None w of
               (er, w1) \<Rightarrow>
                 (let w2 = (case ErrorOutput ce1 of
                              None \<Rightarrow> w1
                            | Some eo \<Rightarrow>
                                (case er of
                                   None \<Rightarrow> w1
                                 | Some e \<Rightarrow> report eo (WriteErrorReport e) w1));
                      sh = should ce1;
                      msg = Message (Entry ce1);
                      w3 = putCheckedEntry (Some ce1) w2
                  in case sh of
                       WriteThenPanic \<Rightarrow> (Panicked msg, Some ce1, w3)
                     | WriteThenFatal \<Rightarrow> (Exited, Some ce1, w3)
                     | WriteThenNoop \<Rightarrow> (Returned, Some ce1, w3))))"

section \<open>The logger\<close>

text \<open>
  \<open>errorOutput\<close> is never nil: \<open>New\<close> and \<open>NewNop\<close> both set it. \<open>addStack\<close> is a
  \<open>LevelEnabler\<close>, read only through \<open>Enabled\<close>.
\<close>

record Logger =
  core :: core
  development :: bool
  name :: string
  errorOutput :: WriteSyncer
  addCaller :: bool
  addStack :: "level \<Rightarrow> bool"
  callerSkip :: int

text \<open>
  What one call of \<open>check\<close> reads from the runtime: \<open>time.Now()\<close>, the caller that
  \<open>runtime.Caller\<close> reports, made an \<open>EntryCaller\<close>, and the text of the stack.
\<close>

record runtime =
  rt_now :: int64
  rt_caller :: EntryCaller
  rt_stack :: string

definition Logger_Entry :: "Logger \<Rightarrow> runtime \<Rightarrow> level \<Rightarrow> string \<Rightarrow> Entry" where
  "Logger_Entry log rt lvl msg =
     \<lparr>Level = lvl, Time = rt_now rt, LoggerName = name log, Message = msg,
      Caller = \<lparr>Defined = False, PC = 0, File = [], Line = 0\<rparr>, Stack = []\<rparr>"

text \<open>The \<open>switch ent.Level\<close> of \<open>check\<close>, which sets up the terminal behaviour.\<close>

definition Logger_terminal ::
  "Logger \<Rightarrow> Entry \<Rightarrow> CheckedEntry option \<Rightarrow> world \<Rightarrow> CheckedEntry option \<times> world" where
  "Logger_terminal log ent ce w =
     (case Level ent of
        PanicLevel \<Rightarrow> (case Should ce ent WriteThenPanic w of (c, w1) \<Rightarrow> (Some c, w1))
      | FatalLevel \<Rightarrow> (case Should ce ent WriteThenFatal w of (c, w1) \<Rightarrow> (Some c, w1))
      | DPanicLevel \<Rightarrow>
          (if development log
           then (case Should ce ent WriteThenPanic w of (c, w1) \<Rightarrow> (Some c, w1))
           else (ce, w))
      | _ \<Rightarrow> (ce, w))"

text \<open>
  The end of \<open>check\<close>, reached when the entry will be written: the error output, the
  caller and the stack are put on the checked entry.
\<close>

definition Logger_annotate ::
  "Logger \<Rightarrow> runtime \<Rightarrow> CheckedEntry \<Rightarrow> world \<Rightarrow> CheckedEntry \<times> world" where
  "Logger_annotate log rt c w =
     (let c1 = c\<lparr>ErrorOutput := Some (errorOutput log)\<rparr> in
      case (if addCaller log
            then (let c2 = c1\<lparr>Entry := (Entry c1)\<lparr>Caller := rt_caller rt\<rparr>\<rparr> in
                  if \<not> Defined (Caller (Entry c2))
                  then (c2, report (errorOutput log) CallerFailure w)
                  else (c2, w))
            else (c1, w)) of
        (c3, w3) \<Rightarrow>
          (if addStack log (Level (Entry c3))
           then (c3\<lparr>Entry := (Entry c3)\<lparr>Stack := rt_stack rt\<rparr>\<rparr>, w3)
           else (c3, w3)))"

text \<open>
  \<open>check\<close>. A nil checked entry cannot reach the annotation, since \<open>willWrite\<close> says it
  is not nil and the switch keeps it so; the dereference is modelled all the same.
\<close>

definition Logger_check ::
  "Logger \<Rightarrow> runtime \<Rightarrow> level \<Rightarrow> string \<Rightarrow> world \<Rightarrow> CheckedEntry option result \<times> world" where
  "Logger_check log rt lvl msg w =
     (let ent = Logger_Entry log rt lvl msg in
      case core_Check (core log) ent None w of
        (Panic p, w1) \<Rightarrow> (Panic p, w1)
      | (Ok ce, w1) \<Rightarrow>
          (let willWrite = (ce \<noteq> None) in
           case Logger_terminal log ent ce w1 of
             (ce2, w2) \<Rightarrow>
               if \<not> willWrite then (Ok ce2, w2)
               else
                 (case ce2 of
                    None \<Rightarrow>
                      (Panic ''runtime error: invalid memory address or nil pointer dereference'',
                       w2)
                  | Some c \<Rightarrow>
                      (case Logger_annotate log rt c w2 of (c4, w3) \<Rightarrow> (Ok (Some c4), w3)))))"

text \<open>
  The body shared by \<open>Debug\<close>, \<open>Info\<close>, \<open>Warn\<close>, \<open>Error\<close>, \<open>DPanic\<close>, \<open>Panic\<close> and
  \<open>Fatal\<close>: \<open>if ce := log.check(lvl, msg); ce != nil { ce.Write(fields...) }\<close>.
\<close>

definition Logger_log ::
  "level \<Rightarrow> Logger \<Rightarrow> runtime \<Rightarrow> string \<Rightarrow> Field list \<Rightarrow> world \<Rightarrow> outcome \<times> world" where
  "Logger_log lvl log rt msg fs w =
     (case Logger_check log rt lvl msg w of
        (Panic p, w1) \<Rightarrow> (Panicked p, w1)
      | (Ok None, w1) \<Rightarrow> (Returned, w1)
      | (Ok (Some ce), w1) \<Rightarrow>
          (case CheckedEntry_Write (Some ce) fs w1 of (oc, ce1, w2) \<Rightarrow> (oc, w2)))"

definition Logger_DPanic ::
  "Logger \<Rightarrow> runtime \<Rightarrow> string \<Rightarrow> Field list \<Rightarrow> world \<Rightarrow> outcome \<times> world" where
  "Logger_DPanic = Logger_log DPanicLevel"

definition Logger_Panic ::
  "Logger \<Rightarrow> runtime \<Rightarrow> string \<Rightarrow> Field list \<Rightarrow> world \<Rightarrow> outcome \<times> world" where
  "Logger_Panic = Logger_log PanicLevel"

definition Logger_Fatal ::
  "Logger \<Rightarrow> runtime \<Rightarrow> string \<Rightarrow> Field list \<Rightarrow> world \<Rightarrow> outcome \<times> world" where
  "Logger_Fatal = Logger_log FatalLevel"

section \<open>The registry of sinks\<close>

text \<open>
  A parsed locator, \<open>*url.URL\<close> of the Go library. \<open>Hostname\<close> and \<open>Port\<close> hold what
  the methods \<open>u.Hostname()\<close> and \<open>u.Port()\<close> return; \<open>User\<close> is a pointer, \<open>None\<close>
  when nil, to a user name and an optional password.
\<close>

record URL =
  Scheme :: string
  User :: "(string \<times> string option) option"
  Hostname :: string
  Port :: string
  Path :: string
  RawQuery :: string
  Fragment :: string

text \<open>
  Files of the operating system (external): the standard streams and the files opened by
  path. The state holds the contents of the files that exist, the files closed so far,
  and which paths the system refuses to open.
\<close>

datatype os_file = Stdout | Stderr | OpenedFile string

datatype open_flag = O_WRONLY | O_APPEND | O_CREATE

record os_state =
  os_files :: "string \<rightharpoonup> string"
  os_closed :: "os_file list"
  os_refuses :: "string \<Rightarrow> error"

definition os_OpenFile ::
  "string \<Rightarrow> open_flag list \<Rightarrow> nat \<Rightarrow> os_state \<Rightarrow> (os_file option \<times> error) \<times> os_state" where
  "os_OpenFile path flags perm st =
     (case os_refuses st path of
        Some e \<Rightarrow> ((None, Some e), st)
      | None \<Rightarrow>
          (case os_files st path of
             Some content \<Rightarrow> ((Some (OpenedFile path), None), st)
           | None \<Rightarrow>
               if O_CREATE \<in> set flags
               then ((Some (OpenedFile path), None), st\<lparr>os_files := (os_files st)(path \<mapsto> [])\<rparr>)
               else ((None, Some (ErrorString ''no such file or directory'')), st)))"

definition os_Close :: "os_file \<Rightarrow> os_state \<Rightarrow> error \<times> os_state" where
  "os_Close f st =
     (if f \<in> set (os_closed st) then (Some (ErrorString ''file already closed''), st)
      else (None, st\<lparr>os_closed := f # os_closed st\<rparr>))"

text \<open>
  The two kinds of \<open>Sink\<close> that \<open>newFileSink\<close> returns: a \<open>nopCloserSink\<close> around a
  file, and the file itself.
\<close>

datatype Sink = NopCloserSink os_file | FileSink os_file

definition Sink_Close :: "Sink \<Rightarrow> os_state \<Rightarrow> error \<times> os_state" where
  "Sink_Close s st =
     (case s of
        NopCloserSink f \<Rightarrow> (None, st)
      | FileSink f \<Rightarrow> os_Close f st)"

text \<open>
  \<open>newFileSink\<close>. The error messages print the locator with \<open>%v\<close>; that argument
  is left out of the model.
\<close>

definition newFileSink :: "URL \<Rightarrow> os_state \<Rightarrow> (Sink option \<times> error) \<times> os_state" where
  "newFileSink u st =
     (if User u \<noteq> None
      then ((None, Some (Errorf ''user and password not allowed with file URLs: got %v'' [])), st)
      else if Fragment u \<noteq> []
      then ((None, Some (Errorf ''fragments not allowed with file URLs: got %v'' [])), st)
      else if RawQuery u \<noteq> []
      then ((None, Some (Errorf ''query parameters not allowed with file URLs: got %v'' [])), st)
      else if Port u \<noteq> []
      then ((None, Some (Errorf ''ports not allowed with file URLs: got %v'' [])), st)
      else if Hostname u \<noteq> [] \<and> Hostname u \<noteq> ''localhost''
      then ((None, Some (Errorf ''file URLs must leave host empty or use localhost: got %v'' [])), st)
      else if Path u = ''stdout'' then ((Some (NopCloserSink Stdout), None), st)
      else if Path u = ''stderr'' then ((Some (NopCloserSink Stderr), None), st)
      else
        (case os_OpenFile (Path u) [O_WRONLY, O_APPEND, O_CREATE] 420 st of
           ((Some f, er), st1) \<Rightarrow> ((Some (FileSink f), er), st1)
         | ((None, er), st1) \<Rightarrow> ((None, er), st1)))"

text \<open>
  A factory is known by its identity: the built-in \<open>newFileSink\<close>, or one supplied by
  the caller of \<open>RegisterSink\<close>.
\<close>

datatype factory = BuiltinFileSink | UserFactory nat

type_synonym registry = "string \<rightharpoonup> factory"

definition schemeFile :: string where
  "schemeFile = ''file''"

definition resetSinkRegistry :: registry where
  "resetSinkRegistry = [schemeFile \<mapsto> BuiltinFileSink]"

definition byte :: "char \<Rightarrow> nat" where
  "byte c = of_char c"

text \<open>
  \<open>strings.ToLower\<close> of the Go library. On a string of ASCII bytes it maps the letters
  A to Z and keeps every other byte. Any other string is mapped rune by rune through the
  Unicode tables, \<open>strings.Map(unicode.ToLower, s)\<close>, which can give ASCII letters (the
  Kelvin sign U+212A becomes \<open>k\<close>); that part is outside the sources and is the
  parameter \<open>unicode_lower\<close>. It maps every rune to a rune and drops none.
\<close>

definition isASCII :: "string \<Rightarrow> bool" where
  "isASCII s = list_all (\<lambda>c. byte c < 128) s"

definition toLower_byte :: "char \<Rightarrow> char" where
  "toLower_byte c = (if 65 \<le> byte c \<and> byte c \<le> 90 then char_of (byte c + 32) else c)"

definition strings_ToLower :: "(string \<Rightarrow> string) \<Rightarrow> string \<Rightarrow> string" where
  "strings_ToLower unicode_lower s =
     (if isASCII s then map toLower_byte s else unicode_lower s)"

text \<open>The loop of \<open>normalizeScheme\<close> over the bytes from index 1 on.\<close>

fun normalizeScheme_loop :: "string \<Rightarrow> error" where
  "normalizeScheme_loop [] = None"
| "normalizeScheme_loop (c # cs) =
     (if 97 \<le> byte c \<and> byte c \<le> 122 then normalizeScheme_loop cs
      else if 48 \<le> byte c \<and> byte c \<le> 57 then normalizeScheme_loop cs
      else if c = CHR ''.'' \<or> c = CHR ''+'' \<or> c = CHR ''-'' then normalizeScheme_loop cs
      else Some (Errorf ''may not contain %q'' [ArgByte c]))"

text \<open>\<open>s[0]\<close> panics on the empty string.\<close>

definition normalizeScheme :: "(string \<Rightarrow> string) \<Rightarrow> string \<Rightarrow> (string \<times> error) result" where
  "normalizeScheme unicode_lower s0 =
     (let s = strings_ToLower unicode_lower s0 in
      case s of
        [] \<Rightarrow> Panic ''runtime error: index out of range''
      | fst_c # rest \<Rightarrow>
          if 97 > byte fst_c \<or> 122 < byte fst_c
          then Ok ([], Some (ErrorString ''must start with a letter''))
          else (case normalizeScheme_loop rest of
                  Some e \<Rightarrow> Ok ([], Some e)
                | None \<Rightarrow> Ok (s, None)))"

definition RegisterSink ::
  "(string \<Rightarrow> string) \<Rightarrow> string \<Rightarrow> factory \<Rightarrow> registry \<Rightarrow> (error \<times> registry) result" where
  "RegisterSink unicode_lower scheme fac reg =
     (if scheme = []
      then Ok (Some (ErrorString ''can't register a sink factory for empty string''), reg)
      else
        (case normalizeScheme unicode_lower scheme of
           Panic p \<Rightarrow> Panic p
         | Ok (normalized, er) \<Rightarrow>
             (case er of
                Some e \<Rightarrow>
                  Ok (Some (Errorf ''%q is not a valid scheme: %v'' [ArgString scheme, ArgError e]),
                      reg)
              | None \<Rightarrow>
                  (case reg normalized of
                     Some registered \<Rightarrow>
                       Ok (Some (Errorf ''sink factory already registered for scheme %q''
                                   [ArgString normalized]), reg)
                   | None \<Rightarrow> Ok (None, reg(normalized \<mapsto> fac))))))"

section \<open>Definitions that follow the specification\<close>

text \<open>
  What the specification says of the fan-out: every member writes (or syncs) in turn,
  from the world the member before it left, whatever that member returned. The result
  is the list of what the members returned and the last world.
\<close>

fun member_writes :: "core list \<Rightarrow> Entry \<Rightarrow> Field list \<Rightarrow> world \<Rightarrow> error list \<times> world" where
  "member_writes [] ent fs w = ([], w)"
| "member_writes (c # cs) ent fs w =
     (case core_Write c ent fs w of
        (e, w1) \<Rightarrow> (case member_writes cs ent fs w1 of (es, w2) \<Rightarrow> (e # es, w2)))"

fun member_syncs :: "core list \<Rightarrow> world \<Rightarrow> error list \<times> world" where
  "member_syncs [] w = ([], w)"
| "member_syncs (c # cs) w =
     (case core_Sync c w of
        (e, w1) \<Rightarrow> (case member_syncs cs w1 of (es, w2) \<Rightarrow> (e # es, w2)))"

text \<open>The errors that an error value holds: none for nil, the members of a combination.\<close>

definition held_errors :: "error \<Rightarrow> err list" where
  "held_errors er = (case er of None \<Rightarrow> [] | Some e \<Rightarrow> errors_of e)"

text \<open>
  What the specification says of a normalized scheme: the first character is a letter,
  every later one a letter, a digit, or one of \<open>.\<close>, \<open>+\<close> and \<open>-\<close>.
\<close>

definition is_letter :: "char \<Rightarrow> bool" where
  "is_letter c = (97 \<le> byte c \<and> byte c \<le> 122)"

definition is_digit :: "char \<Rightarrow> bool" where
  "is_digit c = (48 \<le> byte c \<and> byte c \<le> 57)"

definition valid_scheme :: "string \<Rightarrow> bool" where
  "valid_scheme n =
     (case n of
        [] \<Rightarrow> False
      | c # cs \<Rightarrow> is_letter c
          \<and> list_all (\<lambda>d. is_letter d \<or> is_digit d \<or> d = CHR ''.'' \<or> d = CHR ''+'' \<or> d = CHR ''-'') cs)"

text \<open>
  What the specification says of the sampler in one window with deadline \<open>deadline\<close>:
  the calls are numbered from \<open>n\<close> on; the call numbered \<open>n\<close> leaves the count \<open>n\<close> in
  the bucket and goes to the inner core iff \<open>n \<le> F\<close> or \<open>(n - F) mod M = 0\<close>.
\<close>

fun occurrences ::
  "core \<Rightarrow> nat \<Rightarrow> nat \<times> nat \<Rightarrow> int64 \<Rightarrow> nat \<Rightarrow> nat \<Rightarrow> nat
     \<Rightarrow> (Entry \<times> CheckedEntry option) list \<Rightarrow> world
     \<Rightarrow> (CheckedEntry option result \<times> world) list" where
  "occurrences c a ij deadline F M n [] w = []"
| "occurrences c a ij deadline F M n ((ent, ce) # rest) w =
     (let w1 = set_counter a ij \<lparr>resetAt = deadline, counter = word_of_nat n\<rparr> w;
          r = (if n \<le> F \<or> (n - F) mod M = 0 then core_Check c ent ce w1 else (Ok ce, w1))
      in r # occurrences c a ij deadline F M (Suc n) rest (snd r))"

text \<open>
  A checked entry as \<open>Check\<close> hands it on during one call of \<open>check\<close>: nil, or not yet
  written and holding the entry of the call.
\<close>

definition stamped :: "Entry \<Rightarrow> CheckedEntry option \<Rightarrow> bool" where
  "stamped ent ce = (case ce of None \<Rightarrow> True | Some c \<Rightarrow> \<not> dirty c \<and> Entry c = ent)"

section \<open>Example inputs\<close>

definition ws_ok :: "nat \<Rightarrow> WriteSyncer" where
  "ws_ok i = \<lparr>ws_id = i, ws_write_err = (\<lambda>tr p. None), ws_sync_err = (\<lambda>tr. None)\<rparr>"

definition ws_broken :: "nat \<Rightarrow> WriteSyncer" where
  "ws_broken i = \<lparr>ws_id = i,
     ws_write_err = (\<lambda>tr p. Some (ErrorString ''write failed'')),
     ws_sync_err = (\<lambda>tr. Some (ErrorString ''sync failed''))\<rparr>"

definition ws_sync_broken :: "nat \<Rightarrow> WriteSyncer" where
  "ws_sync_broken i = \<lparr>ws_id = i, ws_write_err = (\<lambda>tr p. None),
     ws_sync_err = (\<lambda>tr. Some (ErrorString ''sync failed''))\<rparr>"

definition enc_ok :: Encoder where
  "enc_ok = \<lparr>enc_context = [], enc_encode = (\<lambda>ctx ent fs. Inr (Message ent))\<rparr>"

definition enc_broken :: Encoder where
  "enc_broken = \<lparr>enc_context = [],
     enc_encode = (\<lambda>ctx ent fs. Inl (ErrorString ''encode failed''))\<rparr>"

definition entry_at :: "level \<Rightarrow> int64 \<Rightarrow> string \<Rightarrow> Entry" where
  "entry_at lvl t msg = \<lparr>Level = lvl, Time = t, LoggerName = [], Message = msg,
     Caller = \<lparr>Defined = False, PC = 0, File = [], Line = 0\<rparr>, Stack = []\<rparr>"

definition world0 :: world where
  "world0 = \<lparr>trace = [], heap = (\<lambda>a. newCounters), next_addr = 0, cePool = []\<rparr>"

definition all_levels :: "level \<Rightarrow> bool" where
  "all_levels lvl = True"

definition no_level :: "level \<Rightarrow> bool" where
  "no_level lvl = False"

text \<open>
  The Kelvin sign in UTF-8, and a mapping for strings that are not ASCII which lowers it
  to \<open>k\<close>, as the Unicode tables do, and keeps any other string.
\<close>

definition kelvin_sign :: string where
  "kelvin_sign = [char_of (226 :: nat), char_of (132 :: nat), char_of (170 :: nat)]"

definition lower_kelvin :: "string \<Rightarrow> string" where
  "lower_kelvin s = (if s = kelvin_sign then ''k'' else s)"

definition file_url :: "string \<Rightarrow> URL" where
  "file_url p = \<lparr>Scheme = ''file'', User = None, Hostname = [], Port = [], Path = p,
     RawQuery = [], Fragment = []\<rparr>"

definition os0 :: os_state where
  "os0 = \<lparr>os_files = Map.empty, os_closed = [], os_refuses = (\<lambda>p. None)\<rparr>"

definition ce_example :: CheckedEntry where
  "ce_example = \<lparr>Entry = entry_at InfoLevel 0 ''m'', ErrorOutput = Some (ws_ok 9),
     dirty = False, should = WriteThenNoop, cores = [IoCore all_levels enc_ok (ws_ok 1)]\<rparr>"

definition sampled_core :: "uint64 \<Rightarrow> uint64 \<Rightarrow> core" where
  "sampled_core f m = Sampler (IoCore all_levels enc_ok (ws_ok 1)) 0 1000 f m"

definition five_calls :: "(Entry \<times> CheckedEntry option) list" where
  "five_calls = map (\<lambda>t. (entry_at InfoLevel t ''m'', None)) [5, 6, 7, 8, 9]"

definition logger_of :: "core \<Rightarrow> Logger" where
  "logger_of c = \<lparr>core = c, development = False, name = [], errorOutput = ws_ok 9,
     addCaller = False, addStack = no_level, callerSkip = 0\<rparr>"

definition rt0 :: runtime where
  "rt0 = \<lparr>rt_now = 5, rt_caller = \<lparr>Defined = False, PC = 0, File = [], Line = 0\<rparr>,
     rt_stack = []\<rparr>"

section \<open>The tee and the no-op core\<close>

text \<open>
  C6. \<open>NewTee\<close> of no core is the no-op core, which is never enabled, binds fields to
  itself, returns the checked entry it is given, and writes and syncs without error or
  effect; of one core it is that core; of two or more it is the \<open>multiCore\<close> of the list.
\<close>

theorem NewTee_cases:
  "NewTee [] = NewNopCore
   \<and> core_Enabled (NewTee []) lvl = False
   \<and> core_With (NewTee []) fs = NewTee []
   \<and> core_Check (NewTee []) ent ce w = (Ok ce, w)
   \<and> core_Write (NewTee []) ent fs w = (None, w)
   \<and> core_Sync (NewTee []) w = (None, w)
   \<and> NewTee [c] = c
   \<and> (2 \<le> length cs \<longrightarrow> NewTee cs = MultiCore cs)"
  by (simp add: NewTee_def NewNopCore_def split: list.splits)

theorem NewTee_cases_witness:
  "2 \<le> length [NopCore, IoCore all_levels enc_ok (ws_ok 0)]
   \<and> NewTee [NopCore, IoCore all_levels enc_ok (ws_ok 0)]
       = MultiCore [NopCore, IoCore all_levels enc_ok (ws_ok 0)]
   \<and> NewTee [IoCore all_levels enc_ok (ws_ok 0)] = IoCore all_levels enc_ok (ws_ok 0)
   \<and> core_Write (NewTee []) (entry_at InfoLevel 0 ''m'') [] world0 = (None, world0)"
  using NewTee_cases [of InfoLevel "[]" "entry_at InfoLevel 0 ''m''" None world0
      "IoCore all_levels enc_ok (ws_ok 0)" "[NopCore, IoCore all_levels enc_ok (ws_ok 0)]"]
  by (simp add: NewNopCore_def)

section \<open>The single-destination core\<close>

text \<open>
  C5. \<open>ioCore.Write\<close> encodes the entry and the fields. If that fails, the error is
  returned and the destination is not touched. Otherwise the bytes are written to the
  destination and the buffer is freed, whether the write failed or not. A failed write
  is returned, with no sync. After a good write the destination is synced when the
  level is above \<open>ErrorLevel\<close>, the result of the sync is dropped, and nil is returned.
\<close>

theorem ioCore_Write_behaviour:
  "core_Write (IoCore en e ws) ent fs w =
     (case EncodeEntry e ent fs of
        Inl er \<Rightarrow> (Some er, w)
      | Inr buf \<Rightarrow>
          (let written = trace w @ [EvWrite (ws_id ws) (Bytes buf), EvFree buf] in
           case ws_write_err ws (trace w) (Bytes buf) of
             Some er \<Rightarrow> (Some er, w\<lparr>trace := written\<rparr>)
           | None \<Rightarrow>
               if level_gt (Level ent) ErrorLevel
               then (None, w\<lparr>trace := written @ [EvSync (ws_id ws)]\<rparr>)
               else (None, w\<lparr>trace := written\<rparr>)))"
  by (simp add: ioCore_Write_def ws_Write_def buf_Free_def ioCore_Sync_def ws_Sync_def Let_def
      split: sum.splits option.splits)

theorem ioCore_Write_behaviour_witness:
  "core_Write (IoCore all_levels enc_ok (ws_broken 3)) (entry_at PanicLevel 0 ''m'') [] world0
     = (Some (ErrorString ''write failed''),
        world0\<lparr>trace := [EvWrite 3 (Bytes ''m''), EvFree ''m'']\<rparr>)
   \<and> core_Write (IoCore all_levels enc_broken (ws_ok 3)) (entry_at PanicLevel 0 ''m'') [] world0
     = (Some (ErrorString ''encode failed''), world0)
   \<and> core_Write (IoCore all_levels enc_ok (ws_sync_broken 3)) (entry_at PanicLevel 0 ''m'') []
        world0
     = (None, world0\<lparr>trace := [EvWrite 3 (Bytes ''m''), EvFree ''m'', EvSync 3]\<rparr>)
   \<and> core_Write (IoCore all_levels enc_ok (ws_sync_broken 3)) (entry_at ErrorLevel 0 ''m'') []
        world0
     = (None, world0\<lparr>trace := [EvWrite 3 (Bytes ''m''), EvFree ''m'']\<rparr>)"
  using ioCore_Write_behaviour [of all_levels enc_ok "ws_broken 3"
      "entry_at PanicLevel 0 ''m''" "[]" world0]
    ioCore_Write_behaviour [of all_levels enc_broken "ws_ok 3"
      "entry_at PanicLevel 0 ''m''" "[]" world0]
    ioCore_Write_behaviour [of all_levels enc_ok "ws_sync_broken 3"
      "entry_at PanicLevel 0 ''m''" "[]" world0]
    ioCore_Write_behaviour [of all_levels enc_ok "ws_sync_broken 3"
      "entry_at ErrorLevel 0 ''m''" "[]" world0]
  by (simp add: EncodeEntry_def enc_ok_def enc_broken_def ws_broken_def ws_ok_def
      ws_sync_broken_def entry_at_def world0_def level_gt_def)

section \<open>The fan-out core\<close>

lemma multierr_Append_None_iff:
  "multierr_Append a b = None \<longleftrightarrow> a = None \<and> b = None"
  by (cases a; cases b) simp_all

lemma foldl_Append_None_iff:
  "foldl multierr_Append er es = None \<longleftrightarrow> er = None \<and> (\<forall>e \<in> set es. e = None)"
  by (induction es arbitrary: er) (auto simp: multierr_Append_None_iff)

lemma held_errors_Append:
  "held_errors (multierr_Append a b) = held_errors a @ held_errors b"
  by (cases a; cases b) (simp_all add: held_errors_def errors_of_def)

lemma held_errors_None: "held_errors None = []"
  by (simp add: held_errors_def)

lemma held_errors_foldl:
  "held_errors (foldl multierr_Append er es) = held_errors er @ concat (map held_errors es)"
  by (induction es arbitrary: er) (simp_all add: held_errors_Append)

lemma length_member_writes: "length (fst (member_writes ms ent fs w)) = length ms"
  by (induction ms arbitrary: w) (simp_all add: split_beta)

lemma length_member_syncs: "length (fst (member_syncs ms w)) = length ms"
  by (induction ms arbitrary: w) (simp_all add: split_beta)

lemma multiCore_Write_member_writes:
  "multiCore_Write ms ent fs er w =
     (foldl multierr_Append er (fst (member_writes ms ent fs w)),
      snd (member_writes ms ent fs w))"
  by (induction ms arbitrary: er w) (simp_all add: split_beta)

lemma multiCore_Sync_member_syncs:
  "multiCore_Sync ms er w =
     (foldl multierr_Append er (fst (member_syncs ms w)), snd (member_syncs ms w))"
  by (induction ms arbitrary: er w) (simp_all add: split_beta)

lemma multiCore_Enabled_iff:
  "multiCore_Enabled ms lvl \<longleftrightarrow> (\<exists>m \<in> set ms. core_Enabled m lvl)"
  by (induction ms) auto

text \<open>
  C7. \<open>Write\<close> of a \<open>multiCore\<close> runs the \<open>Write\<close> of every member in order, each from
  the world left by the one before and whatever that one returned, and leaves the world
  of the last; it returns nil iff every member returned nil, and the errors it holds are
  those of the members in order. \<open>Sync\<close> does the same with the members' \<open>Sync\<close>.
  \<open>Enabled\<close> holds iff it holds for some member.
\<close>

theorem multiCore_aggregates:
  "snd (core_Write (MultiCore ms) ent fs w) = snd (member_writes ms ent fs w)
   \<and> length (fst (member_writes ms ent fs w)) = length ms
   \<and> (fst (core_Write (MultiCore ms) ent fs w) = None
        \<longleftrightarrow> (\<forall>e \<in> set (fst (member_writes ms ent fs w)). e = None))
   \<and> held_errors (fst (core_Write (MultiCore ms) ent fs w))
        = concat (map held_errors (fst (member_writes ms ent fs w)))
   \<and> snd (core_Sync (MultiCore ms) w) = snd (member_syncs ms w)
   \<and> length (fst (member_syncs ms w)) = length ms
   \<and> (fst (core_Sync (MultiCore ms) w) = None
        \<longleftrightarrow> (\<forall>e \<in> set (fst (member_syncs ms w)). e = None))
   \<and> held_errors (fst (core_Sync (MultiCore ms) w))
        = concat (map held_errors (fst (member_syncs ms w)))
   \<and> (core_Enabled (MultiCore ms) lvl \<longleftrightarrow> (\<exists>m \<in> set ms. core_Enabled m lvl))"
  by (simp add: multiCore_Write_member_writes multiCore_Sync_member_syncs
      foldl_Append_None_iff held_errors_foldl length_member_writes length_member_syncs
      multiCore_Enabled_iff held_errors_None)

theorem multiCore_aggregates_witness:
  "core_Write (MultiCore [IoCore no_level enc_ok (ws_broken 1), IoCore no_level enc_ok (ws_ok 2)])
      (entry_at InfoLevel 0 ''m'') [] world0
     = (Some (ErrorString ''write failed''),
        world0\<lparr>trace := [EvWrite 1 (Bytes ''m''), EvFree ''m'',
                          EvWrite 2 (Bytes ''m''), EvFree ''m'']\<rparr>)
   \<and> member_writes [IoCore no_level enc_ok (ws_broken 1), IoCore no_level enc_ok (ws_ok 2)]
      (entry_at InfoLevel 0 ''m'') [] world0
     = ([Some (ErrorString ''write failed''), None],
        world0\<lparr>trace := [EvWrite 1 (Bytes ''m''), EvFree ''m'',
                          EvWrite 2 (Bytes ''m''), EvFree ''m'']\<rparr>)
   \<and> \<not> core_Enabled
        (MultiCore [IoCore no_level enc_ok (ws_broken 1), IoCore no_level enc_ok (ws_ok 2)])
        InfoLevel"
  using multiCore_aggregates
    [of "[IoCore no_level enc_ok (ws_broken 1), IoCore no_level enc_ok (ws_ok 2)]"
        "entry_at InfoLevel 0 ''m''" "[]" world0 InfoLevel]
  by (simp add: ioCore_Write_def EncodeEntry_def enc_ok_def ws_broken_def ws_ok_def
      ws_Write_def buf_Free_def entry_at_def world0_def level_gt_def no_level_def)

section \<open>Writing a checked entry twice\<close>

lemma CheckedEntry_Write_marks:
  "fst (snd (CheckedEntry_Write (Some ce0) fs0 w0)) = Some (ce0\<lparr>dirty := True\<rparr>)"
  by (simp add: CheckedEntry_Write_def Let_def split_beta
      split: option.splits CheckWriteAction.splits)

lemma CheckedEntry_Write_dirty:
  "dirty ce \<Longrightarrow> CheckedEntry_Write (Some ce) fs w =
         (Returned, Some ce,
          case ErrorOutput ce of
            None \<Rightarrow> w
          | Some eo \<Rightarrow> w\<lparr>trace := trace w @ [EvWrite (ws_id eo) (ReuseDiagnostic (Entry ce)),
                                               EvSync (ws_id eo)]\<rparr>)"
  by (simp add: CheckedEntry_Write_def report_def ws_Write_def ws_Sync_def split: option.splits)

text \<open>
  C3. Whatever the first \<open>Write\<close> on a checked entry did, it leaves the entry dirty.
  A later \<open>Write\<close> on it, in any world, returns normally and leaves the entry as it is;
  the world changes only by the reuse diagnostic and the sync on the error output,
  when one is set, and not at all otherwise: no core writes, nothing goes to the pool,
  and there is no panic or exit.
\<close>

theorem Write_on_dirty:
  assumes "CheckedEntry_Write (Some ce0) fs0 w0 = (oc, cep, w1)"
  shows "\<exists>ce. cep = Some ce \<and> dirty ce
     \<and> CheckedEntry_Write (Some ce) fs w =
         (Returned, Some ce,
          case ErrorOutput ce of
            None \<Rightarrow> w
          | Some eo \<Rightarrow> w\<lparr>trace := trace w @ [EvWrite (ws_id eo) (ReuseDiagnostic (Entry ce)),
                                               EvSync (ws_id eo)]\<rparr>)"
proof -
  from assms CheckedEntry_Write_marks [of ce0 fs0 w0]
  have "cep = Some (ce0\<lparr>dirty := True\<rparr>)" by simp
  then show ?thesis
    using CheckedEntry_Write_dirty [of "ce0\<lparr>dirty := True\<rparr>" fs w] by simp
qed

theorem Write_on_dirty_witness:
  "CheckedEntry_Write (Some ce_example) [] world0 =
     (Returned, Some (ce_example\<lparr>dirty := True\<rparr>),
      world0\<lparr>trace := [EvWrite 1 (Bytes ''m''), EvFree ''m''],
             cePool := [ce_example\<lparr>dirty := True\<rparr>]\<rparr>)
   \<and> CheckedEntry_Write (Some (ce_example\<lparr>dirty := True\<rparr>)) [] world0 =
     (Returned, Some (ce_example\<lparr>dirty := True\<rparr>),
      world0\<lparr>trace := [EvWrite 9 (ReuseDiagnostic (entry_at InfoLevel 0 ''m'')), EvSync 9]\<rparr>)"
proof -
  have first: "CheckedEntry_Write (Some ce_example) [] world0 =
     (Returned, Some (ce_example\<lparr>dirty := True\<rparr>),
      world0\<lparr>trace := [EvWrite 1 (Bytes ''m''), EvFree ''m''],
             cePool := [ce_example\<lparr>dirty := True\<rparr>]\<rparr>)"
    by (simp add: CheckedEntry_Write_def ce_example_def ioCore_Write_def EncodeEntry_def
        enc_ok_def ws_ok_def ws_Write_def buf_Free_def entry_at_def world0_def level_gt_def
        putCheckedEntry_def Let_def)
  from Write_on_dirty [OF first, of "[]" world0] first show ?thesis
    by (simp add: ce_example_def ws_ok_def world0_def)
qed

section \<open>Registering a sink\<close>

lemma normalizeScheme_loop_None_iff:
  "normalizeScheme_loop cs = None \<longleftrightarrow>
     list_all (\<lambda>d. is_letter d \<or> is_digit d \<or> d = CHR ''.'' \<or> d = CHR ''+'' \<or> d = CHR ''-'') cs"
  by (induction cs) (auto simp: is_letter_def is_digit_def)

lemma strings_ToLower_not_Nil:
  assumes "\<not> isASCII s \<Longrightarrow> U s \<noteq> []" and "s \<noteq> []"
  shows "strings_ToLower U s \<noteq> []"
  using assms by (simp add: strings_ToLower_def)

lemma normalizeScheme_valid:
  assumes "valid_scheme (strings_ToLower U s)"
  shows "normalizeScheme U s = Ok (strings_ToLower U s, None)"
proof (cases "strings_ToLower U s")
  case Nil
  with assms show ?thesis by (simp add: valid_scheme_def)
next
  case (Cons c cs)
  with assms have "is_letter c" and "normalizeScheme_loop cs = None"
    by (simp_all add: valid_scheme_def normalizeScheme_loop_None_iff)
  with Cons show ?thesis by (simp add: normalizeScheme_def is_letter_def)
qed

lemma normalizeScheme_invalid:
  assumes "strings_ToLower U s \<noteq> []" and "\<not> valid_scheme (strings_ToLower U s)"
  shows "\<exists>e. normalizeScheme U s = Ok ([], Some e)"
proof (cases "strings_ToLower U s")
  case Nil
  with assms(1) show ?thesis by simp
next
  case (Cons c cs)
  show ?thesis
  proof (cases "is_letter c")
    case False
    with Cons show ?thesis by (auto simp: normalizeScheme_def is_letter_def)
  next
    case True
    with assms(2) Cons have "normalizeScheme_loop cs \<noteq> None"
      by (simp add: valid_scheme_def normalizeScheme_loop_None_iff)
    then obtain e where "normalizeScheme_loop cs = Some e" by blast
    with True Cons show ?thesis by (simp add: normalizeScheme_def is_letter_def)
  qed
qed

text \<open>
  C8. Let the Unicode part of \<open>strings.ToLower\<close> give no empty string for the scheme,
  as the library does for every string that is not empty. Then \<open>RegisterSink\<close> does not
  panic: it returns an error value and a registry. The error is nil exactly when the
  scheme is not empty, its lower-cased form is a valid scheme (a letter first, then
  letters, digits, \<open>.\<close>, \<open>+\<close>, \<open>-\<close>) and no factory is registered under that form.
  Then the factory is stored under the lower-cased scheme; in every other case the
  registry is left as it was. This holds for every scheme, ASCII or not, and whatever
  the Unicode tables say.
\<close>

theorem RegisterSink_cases:
  assumes "\<not> isASCII s \<Longrightarrow> U s \<noteq> []"
  shows "\<exists>er reg'. RegisterSink U s fac reg = Ok (er, reg')
     \<and> (er = None \<longleftrightarrow>
          s \<noteq> [] \<and> valid_scheme (strings_ToLower U s) \<and> reg (strings_ToLower U s) = None)
     \<and> reg' = (if er = None then reg(strings_ToLower U s \<mapsto> fac) else reg)"
proof (cases "s = []")
  case True
  then show ?thesis by (simp add: RegisterSink_def)
next
  case False
  show ?thesis
  proof (cases "valid_scheme (strings_ToLower U s)")
    case True
    with False show ?thesis
      by (cases "reg (strings_ToLower U s)")
         (simp_all add: RegisterSink_def normalizeScheme_valid)
  next
    case invalid: False
    from normalizeScheme_invalid [OF strings_ToLower_not_Nil [of s U, OF assms False] invalid]
    obtain e where "normalizeScheme U s = Ok ([], Some e)" by blast
    with False invalid show ?thesis by (simp add: RegisterSink_def)
  qed
qed

theorem RegisterSink_cases_witness:
  "RegisterSink lower_kelvin ''A.b+C-9'' (UserFactory 1) resetSinkRegistry
     = Ok (None, resetSinkRegistry(''a.b+c-9'' \<mapsto> UserFactory 1))
   \<and> RegisterSink lower_kelvin kelvin_sign (UserFactory 1) resetSinkRegistry
     = Ok (None, resetSinkRegistry(''k'' \<mapsto> UserFactory 1))
   \<and> (\<exists>e. RegisterSink lower_kelvin ''3ab'' (UserFactory 1) resetSinkRegistry
            = Ok (Some e, resetSinkRegistry))
   \<and> (\<exists>e. RegisterSink lower_kelvin ''a_b'' (UserFactory 1) resetSinkRegistry
            = Ok (Some e, resetSinkRegistry))
   \<and> (\<exists>e. RegisterSink lower_kelvin ''FILE'' (UserFactory 1) resetSinkRegistry
            = Ok (Some e, resetSinkRegistry))
   \<and> (\<exists>e. RegisterSink lower_kelvin [] (UserFactory 1) resetSinkRegistry
            = Ok (Some e, resetSinkRegistry))"
proof -
  have low: "strings_ToLower lower_kelvin ''A.b+C-9'' = ''a.b+c-9''"
    "strings_ToLower lower_kelvin ''3ab'' = ''3ab''"
    "strings_ToLower lower_kelvin ''a_b'' = ''a_b''"
    "strings_ToLower lower_kelvin ''FILE'' = ''file''"
    "strings_ToLower lower_kelvin kelvin_sign = ''k''"
    by code_simp+
  have val: "valid_scheme ''a.b+c-9''" "\<not> valid_scheme ''3ab''" "\<not> valid_scheme ''a_b''"
    "valid_scheme ''file''" "valid_scheme ''k''"
    by (simp_all add: valid_scheme_def is_letter_def is_digit_def byte_def)
  have reg: "resetSinkRegistry ''a.b+c-9'' = None" "resetSinkRegistry ''file'' \<noteq> None"
    "resetSinkRegistry ''k'' = None"
    by (simp_all add: resetSinkRegistry_def schemeFile_def)
  have lib: "lower_kelvin s \<noteq> []" if "s \<noteq> []" for s
    using that by (simp add: lower_kelvin_def)
  have ne: "kelvin_sign \<noteq> []" by (simp add: kelvin_sign_def)
  have fails: "\<exists>e. RegisterSink lower_kelvin s (UserFactory 1) resetSinkRegistry
                    = Ok (Some e, resetSinkRegistry)"
    if "\<not> (s \<noteq> [] \<and> valid_scheme (strings_ToLower lower_kelvin s)
             \<and> resetSinkRegistry (strings_ToLower lower_kelvin s) = None)"
      and "s = [] \<or> lower_kelvin s \<noteq> []" for s
  proof -
    have "\<not> isASCII s \<Longrightarrow> lower_kelvin s \<noteq> []"
      using that(2) by (auto simp: isASCII_def)
    from RegisterSink_cases [of s lower_kelvin "UserFactory 1" resetSinkRegistry, OF this]
    obtain er reg' where
      r: "RegisterSink lower_kelvin s (UserFactory 1) resetSinkRegistry = Ok (er, reg')"
      and e: "er = None \<longleftrightarrow> s \<noteq> [] \<and> valid_scheme (strings_ToLower lower_kelvin s)
             \<and> resetSinkRegistry (strings_ToLower lower_kelvin s) = None"
      and g: "reg' = (if er = None
                      then resetSinkRegistry(strings_ToLower lower_kelvin s \<mapsto> UserFactory 1)
                      else resetSinkRegistry)"
      by blast
    from e that(1) have "er \<noteq> None" by blast
    then obtain x where "er = Some x" by blast
    with r g show ?thesis by simp
  qed
  from RegisterSink_cases [of "''A.b+C-9''" lower_kelvin "UserFactory 1" resetSinkRegistry]
  have ok: "RegisterSink lower_kelvin ''A.b+C-9'' (UserFactory 1) resetSinkRegistry
     = Ok (None, resetSinkRegistry(''a.b+c-9'' \<mapsto> UserFactory 1))"
    by (simp add: low val reg lib)
  from RegisterSink_cases [of kelvin_sign lower_kelvin "UserFactory 1" resetSinkRegistry]
  have kelvin: "RegisterSink lower_kelvin kelvin_sign (UserFactory 1) resetSinkRegistry
     = Ok (None, resetSinkRegistry(''k'' \<mapsto> UserFactory 1))"
    by (simp add: low val reg lib ne)
  show ?thesis
    using ok kelvin fails [of "''3ab''"] fails [of "''a_b''"] fails [of "''FILE''"]
      fails [of "[]"]
    by (simp add: low val reg lib)
qed

section \<open>The built-in file sink\<close>

lemma os_OpenFile_create:
  "os_refuses st p = None \<Longrightarrow>
     os_OpenFile p [O_WRONLY, O_APPEND, O_CREATE] 420 st =
       ((Some (OpenedFile p), None),
        st\<lparr>os_files := (os_files st)(p \<mapsto> (case os_files st p of None \<Rightarrow> [] | Some c \<Rightarrow> c))\<rparr>)"
  by (cases "os_files st p") (simp_all add: os_OpenFile_def map_upd_triv)

lemma newFileSink_rejects:
  "User u \<noteq> None \<or> Fragment u \<noteq> [] \<or> RawQuery u \<noteq> [] \<or> Port u \<noteq> []
     \<or> (Hostname u \<noteq> [] \<and> Hostname u \<noteq> ''localhost'')
   \<Longrightarrow> \<exists>e. newFileSink u st = ((None, Some e), st)"
  by (cases "User u = None"; cases "Fragment u = []"; cases "RawQuery u = []";
      cases "Port u = []") (simp_all add: newFileSink_def)

lemma newFileSink_accepts:
  "\<not> (User u \<noteq> None \<or> Fragment u \<noteq> [] \<or> RawQuery u \<noteq> [] \<or> Port u \<noteq> []
     \<or> (Hostname u \<noteq> [] \<and> Hostname u \<noteq> ''localhost''))
   \<Longrightarrow> newFileSink u st =
     (if Path u = ''stdout'' then ((Some (NopCloserSink Stdout), None), st)
      else if Path u = ''stderr'' then ((Some (NopCloserSink Stderr), None), st)
      else (case os_OpenFile (Path u) [O_WRONLY, O_APPEND, O_CREATE] 420 st of
              ((f, er), st1) \<Rightarrow> ((map_option FileSink f, er), st1)))"
  by (cases "os_OpenFile (Path u) [O_WRONLY, O_APPEND, O_CREATE] 420 st")
     (auto simp: newFileSink_def split: option.splits)

text \<open>
  C9. \<open>newFileSink\<close> returns an error, and touches nothing, when the locator has user
  information, a fragment, a query, a port, or a host that is neither empty nor
  \<open>localhost\<close>. Otherwise the path \<open>stdout\<close> or \<open>stderr\<close> gives the standard stream
  inside a \<open>nopCloserSink\<close>, whose \<open>Close\<close> returns nil and leaves every file as it is;
  any other path is opened with the flags for writing, appending and creating, and
  permission 0644, which, unless the system refuses, gives the file, created empty
  when it did not exist and with its content kept when it did.
\<close>

theorem newFileSink_cases:
  "(if User u \<noteq> None \<or> Fragment u \<noteq> [] \<or> RawQuery u \<noteq> [] \<or> Port u \<noteq> []
        \<or> (Hostname u \<noteq> [] \<and> Hostname u \<noteq> ''localhost'')
    then \<exists>e. newFileSink u st = ((None, Some e), st)
    else newFileSink u st =
     (if Path u = ''stdout'' then ((Some (NopCloserSink Stdout), None), st)
      else if Path u = ''stderr'' then ((Some (NopCloserSink Stderr), None), st)
      else (case os_OpenFile (Path u) [O_WRONLY, O_APPEND, O_CREATE] 420 st of
              ((f, er), st1) \<Rightarrow> ((map_option FileSink f, er), st1))))
   \<and> Sink_Close (NopCloserSink f) st' = (None, st')
   \<and> (os_refuses st p = None \<longrightarrow>
        os_OpenFile p [O_WRONLY, O_APPEND, O_CREATE] 420 st =
          ((Some (OpenedFile p), None),
           st\<lparr>os_files := (os_files st)(p \<mapsto> (case os_files st p of None \<Rightarrow> [] | Some c \<Rightarrow> c))\<rparr>))"
proof (intro conjI)
  show "Sink_Close (NopCloserSink f) st' = (None, st')"
    by (simp add: Sink_Close_def)
  show "os_refuses st p = None \<longrightarrow>
        os_OpenFile p [O_WRONLY, O_APPEND, O_CREATE] 420 st =
          ((Some (OpenedFile p), None),
           st\<lparr>os_files := (os_files st)(p \<mapsto> (case os_files st p of None \<Rightarrow> [] | Some c \<Rightarrow> c))\<rparr>)"
    using os_OpenFile_create by blast
  show "if User u \<noteq> None \<or> Fragment u \<noteq> [] \<or> RawQuery u \<noteq> [] \<or> Port u \<noteq> []
        \<or> (Hostname u \<noteq> [] \<and> Hostname u \<noteq> ''localhost'')
    then \<exists>e. newFileSink u st = ((None, Some e), st)
    else newFileSink u st =
     (if Path u = ''stdout'' then ((Some (NopCloserSink Stdout), None), st)
      else if Path u = ''stderr'' then ((Some (NopCloserSink Stderr), None), st)
      else (case os_OpenFile (Path u) [O_WRONLY, O_APPEND, O_CREATE] 420 st of
              ((f, er), st1) \<Rightarrow> ((map_option FileSink f, er), st1)))"
  proof (cases "User u \<noteq> None \<or> Fragment u \<noteq> [] \<or> RawQuery u \<noteq> [] \<or> Port u \<noteq> []
        \<or> (Hostname u \<noteq> [] \<and> Hostname u \<noteq> ''localhost'')")
    case True
    with newFileSink_rejects [OF True, of st] show ?thesis by (simp only: if_True)
  next
    case False
    with newFileSink_accepts [OF False, of st] show ?thesis by (simp only: if_False)
  qed
qed

theorem newFileSink_cases_witness:
  "newFileSink (file_url ''stdout'') os0 = ((Some (NopCloserSink Stdout), None), os0)
   \<and> Sink_Close (NopCloserSink Stdout) os0 = (None, os0)
   \<and> newFileSink (file_url ''/tmp/log'') os0 =
       ((Some (FileSink (OpenedFile ''/tmp/log'')), None),
        os0\<lparr>os_files := [''/tmp/log'' \<mapsto> []]\<rparr>)
   \<and> (\<exists>e. newFileSink ((file_url ''stdout'')\<lparr>Port := ''80''\<rparr>) os0 = ((None, Some e), os0))"
  using newFileSink_cases [of "file_url ''stdout''" os0 Stdout os0 "''/tmp/log''"]
    newFileSink_cases [of "file_url ''/tmp/log''" os0 Stdout os0 "''/tmp/log''"]
    newFileSink_cases [of "(file_url ''stdout'')\<lparr>Port := ''80''\<rparr>" os0 Stdout os0 "''/tmp/log''"]
  by (simp add: file_url_def os0_def)

section \<open>The sampler\<close>

lemma getCheckedEntry_heap: "heap (snd (getCheckedEntry w)) = heap w"
  by (simp add: getCheckedEntry_def split: list.splits)

lemma AddCore_heap: "heap (snd (AddCore ce ent c w)) = heap w"
  by (cases ce) (simp_all add: AddCore_def split_beta getCheckedEntry_heap)

lemma core_Check_heap_other:
  "a \<notin> sampler_tables c \<Longrightarrow> heap (snd (core_Check c ent ce w)) a = heap w a"
  "a \<notin> sampler_tables_list mc \<Longrightarrow> heap (snd (multiCore_Check mc ent ce w)) a = heap w a"
proof (induction c ent ce w and mc ent ce w rule: core_Check_multiCore_Check.induct)
  case (1 ent ce w)
  then show ?case by simp
next
  case (2 en e ws ent ce w)
  then show ?case by (simp add: split_beta AddCore_heap)
next
  case (3 mc ent ce w)
  then show ?case by simp
next
  case (4 c b tk f m ent ce w)
  show ?case
  proof (cases "core_Enabled c (Level ent)")
    case False
    then show ?thesis by simp
  next
    case True
    obtain n cnt where inc: "IncCheckReset (heap w b (counters_get (Level ent) (Message ent))) (Time ent) tk = (n, cnt)"
      by (cases "IncCheckReset (heap w b (counters_get (Level ent) (Message ent))) (Time ent) tk")
    from "4.prems" have ab: "a \<noteq> b" and ac: "a \<notin> sampler_tables c" by simp_all
    show ?thesis
    proof (cases "sampler_drops n f m")
      case (Panic p)
      with True inc ab show ?thesis by simp
    next
      case (Ok dropped)
      show ?thesis
      proof (cases dropped)
        case True
        with \<open>core_Enabled c (Level ent)\<close> inc ab Ok show ?thesis by simp
      next
        case False
        with "4.IH" [OF _ refl inc [symmetric] refl Ok _ ac] \<open>core_Enabled c (Level ent)\<close> inc ab Ok
        show ?thesis by simp
      qed
    qed
  qed
next
  case (5 ent ce w)
  then show ?case by simp
next
  case (6 c mc ent ce w)
  obtain r w1 where r: "core_Check c ent ce w = (r, w1)" by (cases "core_Check c ent ce w")
  from "6.prems" have ac: "a \<notin> sampler_tables c" and am: "a \<notin> sampler_tables_list mc" by simp_all
  from "6.IH"(1) [OF ac] r have h1: "heap w1 a = heap w a" by simp
  show ?case
  proof (cases r)
    case (Panic p)
    with r h1 show ?thesis by simp
  next
    case (Ok ce1)
    with "6.IH"(2) [OF r [symmetric] Ok am] r h1 show ?thesis by simp
  qed
qed


lemma NewSampler_fresh_table:
  assumes "\<forall>b \<in> sampler_tables c. b < next_addr w"
  shows "counts (fst (NewSampler c tk f m w)) \<notin> sampler_tables c"
  using assms by (auto simp: NewSampler_def)

lemma sampler_drops_nat:
  "m \<noteq> 0 \<Longrightarrow>
   sampler_drops n f m = Ok (unat f < unat n \<and> (unat n - unat f) mod unat m \<noteq> 0)"
proof (cases "f < n")
  case False
  assume "m \<noteq> 0"
  with False show ?thesis by (simp add: sampler_drops_def word_less_nat_alt)
next
  case True
  assume m: "m \<noteq> 0"
  from True have le: "f \<le> n" by simp
  have "unat ((n - f) mod m) = (unat n - unat f) mod unat m"
    by (simp add: unat_mod unat_sub [OF le])
  moreover have "(n - f) mod m \<noteq> 0 \<longleftrightarrow> unat ((n - f) mod m) \<noteq> 0"
    by (simp add: unat_eq_0)
  ultimately show ?thesis
    using True m by (simp add: sampler_drops_def uint64_mod_def word_less_nat_alt)
qed

lemma sampler_Check_step:
  assumes "core_Enabled c (Level ent)" and "m \<noteq> 0"
    and "counters_get (Level ent) (Message ent) = ij"
    and "IncCheckReset (heap w a ij) (Time ent) tk = (n, cnt)"
  shows "core_Check (Sampler c a tk f m) ent ce w =
     (if unat n \<le> unat f \<or> (unat n - unat f) mod unat m = 0
      then core_Check c ent ce (set_counter a ij cnt w)
      else (Ok ce, set_counter a ij cnt w))"
  using assms by (auto simp: sampler_drops_nat set_counter_def Let_def)

lemma counter_eq: "c\<lparr>counter := n, resetAt := d\<rparr> = \<lparr>resetAt = d, counter = n\<rparr>"
  by (cases c) simp

lemma heap_set_counter: "heap (set_counter a ij cnt w) a ij = cnt"
  by (simp add: set_counter_def)

lemma in_window_run:
  assumes "\<forall>(e, ce) \<in> set calls. core_Enabled c (Level e)
              \<and> counters_get (Level e) (Message e) = ij \<and> word_sless (Time e) d"
    and "m \<noteq> 0" and "a \<notin> sampler_tables c"
    and "k + length calls < 2 ^ 64"
    and "heap w a ij = \<lparr>resetAt = d, counter = word_of_nat k\<rparr>"
  shows "Checks (Sampler c a tk f m) calls w
           = occurrences c a ij d (unat f) (unat m) (Suc k) calls w"
  using assms
proof (induction calls arbitrary: k w)
  case Nil
  then show ?case by simp
next
  case (Cons x calls)
  obtain e ce where x: "x = (e, ce)" by (cases x)
  from Cons.prems(1) x have en: "core_Enabled c (Level e)"
    and ij: "counters_get (Level e) (Message e) = ij"
    and win: "word_sless (Time e) d" by simp_all
  from Cons.prems(4) have k: "Suc k < 2 ^ 64" by simp
  then have un: "unat (word_of_nat (Suc k) :: uint64) = Suc k"
    by (simp only: unat_of_nat) simp
  let ?cnt = "\<lparr>resetAt = d, counter = word_of_nat (Suc k)\<rparr> :: counter"
  have inc: "IncCheckReset (heap w a ij) (Time e) tk = (word_of_nat (Suc k), ?cnt)"
    using win Cons.prems(5) by (simp add: IncCheckReset_def)
  let ?w1 = "set_counter a ij ?cnt w"
  let ?r = "if Suc k \<le> unat f \<or> (Suc k - unat f) mod unat m = 0
            then core_Check c e ce ?w1 else (Ok ce, ?w1)"
  have step: "core_Check (Sampler c a tk f m) e ce w = ?r"
    using sampler_Check_step [OF en Cons.prems(2) ij inc, of f ce] un by simp
  have cell: "heap (snd ?r) a ij = ?cnt"
    using core_Check_heap_other(1) [OF Cons.prems(3), of e ce ?w1]
    by (simp add: heap_set_counter)
  have rest: "Checks (Sampler c a tk f m) calls (snd ?r)
           = occurrences c a ij d (unat f) (unat m) (Suc (Suc k)) calls (snd ?r)"
    using Cons.prems(1,4) by (intro Cons.IH [OF _ Cons.prems(2,3) _ cell]) simp_all
  show ?case
    unfolding x Checks.simps occurrences.simps step Let_def rest ..
qed

lemma reset_then_window:
  assumes "\<forall>(e, ce) \<in> set ((e1, ce1) # rest).
              core_Enabled c (Level e) \<and> counters_get (Level e) (Message e) = ij"
    and "\<not> word_sless (Time e1) (resetAt (heap w a ij))"
    and "\<forall>(e, ce) \<in> set rest. word_sless (Time e) (Time e1 + tk)"
    and "m \<noteq> 0" and "a \<notin> sampler_tables c"
    and "Suc (length rest) < 2 ^ 64"
  shows "Checks (Sampler c a tk f m) ((e1, ce1) # rest) w
           = occurrences c a ij (Time e1 + tk) (unat f) (unat m) 1 ((e1, ce1) # rest) w"
proof -
  from assms(1) have en: "core_Enabled c (Level e1)"
    and ij: "counters_get (Level e1) (Message e1) = ij" by simp_all
  let ?cnt = "\<lparr>resetAt = Time e1 + tk, counter = 1\<rparr> :: counter"
  have inc: "IncCheckReset (heap w a ij) (Time e1) tk = (1, ?cnt)"
    using assms(2) by (simp add: IncCheckReset_def counter_eq)
  let ?w1 = "set_counter a ij ?cnt w"
  let ?r = "if 1 \<le> unat f \<or> (1 - unat f) mod unat m = 0
            then core_Check c e1 ce1 ?w1 else (Ok ce1, ?w1)"
  have step: "core_Check (Sampler c a tk f m) e1 ce1 w = ?r"
    using sampler_Check_step [OF en assms(4) ij inc, of f ce1] by simp
  have cell: "heap (snd ?r) a ij = \<lparr>resetAt = Time e1 + tk, counter = word_of_nat 1\<rparr>"
    using core_Check_heap_other(1) [OF assms(5), of e1 ce1 ?w1]
    by (simp add: heap_set_counter)
  have all: "\<forall>(e, ce) \<in> set rest. core_Enabled c (Level e)
              \<and> counters_get (Level e) (Message e) = ij \<and> word_sless (Time e) (Time e1 + tk)"
    using assms(1,3) by auto
  have rest: "Checks (Sampler c a tk f m) rest (snd ?r)
           = occurrences c a ij (Time e1 + tk) (unat f) (unat m) (Suc 1) rest (snd ?r)"
    using assms(6) by (intro in_window_run [OF all assms(4,5) _ cell]) simp
  have one: "(word_of_nat 1 :: uint64) = 1" by simp
  show ?thesis
    unfolding Checks.simps occurrences.simps step Let_def rest one
    by simp
qed


text \<open>
  C1, as the code has it. Take calls to \<open>Check\<close> of a sampler with \<open>thereafter\<close> not
  zero, all for one bucket and a level that is enabled, the table not shared with a
  sampler inside. If the bucket holds the count \<open>k\<close> and all timestamps are before its
  deadline, the calls are the occurrences \<open>k + 1\<close>, \<open>k + 2\<close>, ... of the window: the one
  numbered \<open>n\<close> goes to the inner core iff \<open>n \<le> first\<close> or \<open>(n - first) mod thereafter = 0\<close>.
  If the first call is at or past the deadline, the count restarts at 1 with that call,
  the deadline becomes its timestamp plus the tick (in \<open>int64\<close>), and that call and
  those that follow before the new deadline are the occurrences 1, 2, ... under the same
  rule: the call that resets is delegated iff \<open>1 \<le> first\<close> or \<open>thereafter = 1\<close>.
\<close>

theorem sampler_occurrences:
  assumes "\<forall>(e, ce) \<in> set calls.
              core_Enabled c (Level e) \<and> counters_get (Level e) (Message e) = ij"
    and "m \<noteq> 0" and "a \<notin> sampler_tables c"
  shows
    "(heap w a ij = \<lparr>resetAt = d, counter = word_of_nat k\<rparr>
        \<and> (\<forall>(e, ce) \<in> set calls. word_sless (Time e) d)
        \<and> k + length calls < 2 ^ 64
      \<longrightarrow> Checks (Sampler c a tk f m) calls w
            = occurrences c a ij d (unat f) (unat m) (Suc k) calls w)
     \<and> (\<not> word_sless (Time (fst (hd calls))) (resetAt (heap w a ij))
        \<and> calls \<noteq> []
        \<and> (\<forall>(e, ce) \<in> set (tl calls). word_sless (Time e) (Time (fst (hd calls)) + tk))
        \<and> length calls < 2 ^ 64
      \<longrightarrow> Checks (Sampler c a tk f m) calls w
            = occurrences c a ij (Time (fst (hd calls)) + tk) (unat f) (unat m) 1 calls w)"
proof (intro conjI impI)
  assume h: "heap w a ij = \<lparr>resetAt = d, counter = word_of_nat k\<rparr>
        \<and> (\<forall>(e, ce) \<in> set calls. word_sless (Time e) d)
        \<and> k + length calls < 2 ^ 64"
  with assms(1) have all: "\<forall>(e, ce) \<in> set calls. core_Enabled c (Level e)
              \<and> counters_get (Level e) (Message e) = ij \<and> word_sless (Time e) d"
    by auto
  from h show "Checks (Sampler c a tk f m) calls w
            = occurrences c a ij d (unat f) (unat m) (Suc k) calls w"
    by (intro in_window_run [OF all assms(2,3)]) simp_all
next
  assume h: "\<not> word_sless (Time (fst (hd calls))) (resetAt (heap w a ij))
        \<and> calls \<noteq> []
        \<and> (\<forall>(e, ce) \<in> set (tl calls). word_sless (Time e) (Time (fst (hd calls)) + tk))
        \<and> length calls < 2 ^ 64"
  then obtain e1 ce1 rest where calls: "calls = (e1, ce1) # rest"
    by (cases calls) auto
  from h calls assms(1) show "Checks (Sampler c a tk f m) calls w
            = occurrences c a ij (Time (fst (hd calls)) + tk) (unat f) (unat m) 1 calls w"
    unfolding calls list.sel fst_conv
    by (intro reset_then_window [OF _ _ _ assms(2,3)]) simp_all
qed

theorem sampler_occurrences_witness:
  "map (\<lambda>r. fst r = Ok None) (Checks (sampled_core 2 2) five_calls world0)
     = [False, False, True, False, True]"
proof -
  let ?c = "IoCore all_levels enc_ok (ws_ok 1)"
  let ?ij = "counters_get InfoLevel ''m''"
  have same: "\<forall>(e, ce) \<in> set five_calls.
      core_Enabled ?c (Level e) \<and> counters_get (Level e) (Message e) = ?ij"
    by (simp add: five_calls_def entry_at_def all_levels_def)
  have m: "(2 :: uint64) \<noteq> 0" by simp
  have a: "0 \<notin> sampler_tables ?c" by simp
  have run: "\<not> word_sless (Time (fst (hd five_calls))) (resetAt (heap world0 0 ?ij))
        \<and> five_calls \<noteq> []
        \<and> (\<forall>(e, ce) \<in> set (tl five_calls).
              word_sless (Time e) (Time (fst (hd five_calls)) + 1000))
        \<and> length five_calls < 2 ^ 64"
    by (simp add: five_calls_def entry_at_def world0_def newCounters_def word_sless_alt)
  have eq: "Checks (sampled_core 2 2) five_calls world0
      = occurrences ?c 0 ?ij (Time (fst (hd five_calls)) + 1000) (unat (2 :: uint64))
          (unat (2 :: uint64)) 1 five_calls world0"
    unfolding sampled_core_def
    using sampler_occurrences [OF same m a, of world0 0 0 1000 2] run by blast
  show ?thesis
    unfolding eq
    by (simp add: five_calls_def entry_at_def all_levels_def AddCore_def getCheckedEntry_def
        set_counter_def world0_def Let_def)
qed


text \<open>
  With \<open>first = 0\<close> and \<open>thereafter = 2\<close> the call that resets the bucket is dropped:
  the bucket is left with count 1 and the new deadline, the entry is returned as it
  came, and the inner core, which would have added itself, is not asked.
\<close>

theorem first_occurrence_dropped:
  "core_Check (sampled_core 0 2) (entry_at InfoLevel 5 ''m'') None world0
     = (Ok None,
        set_counter 0 (counters_get InfoLevel ''m'') \<lparr>resetAt = 1005, counter = 1\<rparr> world0)
   \<and> fst (core_Check (IoCore all_levels enc_ok (ws_ok 1)) (entry_at InfoLevel 5 ''m'') None
        (set_counter 0 (counters_get InfoLevel ''m'') \<lparr>resetAt = 1005, counter = 1\<rparr> world0))
     \<noteq> Ok None"
  by (simp add: sampled_core_def all_levels_def entry_at_def world0_def newCounters_def
      IncCheckReset_def sampler_drops_def uint64_mod_def set_counter_def AddCore_def
      getCheckedEntry_def Let_def word_sless_alt)

text \<open>
  C2. \<open>NewSampler\<close> accepts \<open>thereafter = 0\<close>, and \<open>Check\<close> then panics on the first
  occurrence past \<open>first\<close>, here the first one: the remainder is taken by zero.
\<close>

theorem thereafter_zero_panics:
  "NewSampler (IoCore all_levels enc_ok (ws_ok 1)) 1000 0 0 world0
     = (sampled_core 0 0, world0\<lparr>heap := (heap world0)(0 := newCounters), next_addr := 1\<rparr>)
   \<and> core_Check (sampled_core 0 0) (entry_at InfoLevel 5 ''m'') None world0
     = (Panic ''runtime error: integer divide by zero'',
        set_counter 0 (counters_get InfoLevel ''m'') \<lparr>resetAt = 1005, counter = 1\<rparr> world0)"
  by (simp add: NewSampler_def sampled_core_def all_levels_def entry_at_def world0_def
      newCounters_def IncCheckReset_def sampler_drops_def uint64_mod_def set_counter_def Let_def
      word_sless_alt)


section \<open>Binding fields to a sampler\<close>

lemma core_With_Enabled:
  "core_Enabled (core_With c fs) lvl = core_Enabled c lvl"
  "multiCore_Enabled (multiCore_With mc fs) lvl = multiCore_Enabled mc lvl"
  by (induction c fs and mc fs rule: core_With_multiCore_With.induct) simp_all

lemma sampler_tables_With:
  "sampler_tables (core_With c fs) = sampler_tables c"
  "sampler_tables_list (multiCore_With mc fs) = sampler_tables_list mc"
  by (induction c fs and mc fs rule: core_With_multiCore_With.induct) simp_all

lemma sampler_Check_cell:
  assumes "core_Enabled c (Level ent)" and "a \<notin> sampler_tables c"
  shows "heap (snd (core_Check (Sampler c a tk f m) ent ce w)) a
           (counters_get (Level ent) (Message ent))
         = snd (IncCheckReset (heap w a (counters_get (Level ent) (Message ent))) (Time ent) tk)"
proof -
  let ?ij = "counters_get (Level ent) (Message ent)"
  obtain n cnt where inc: "IncCheckReset (heap w a ?ij) (Time ent) tk = (n, cnt)"
    by (cases "IncCheckReset (heap w a ?ij) (Time ent) tk")
  let ?w1 = "set_counter a ?ij cnt w"
  have inner: "heap (snd (core_Check c ent ce ?w1)) a ?ij = cnt"
    using core_Check_heap_other(1) [OF assms(2), of ent ce ?w1] by (simp add: heap_set_counter)
  show ?thesis
  proof (cases "sampler_drops n f m")
    case (Panic p)
    with assms(1) inc show ?thesis by (simp add: set_counter_def)
  next
    case (Ok dropped)
    with assms(1) inc inner show ?thesis
      by (cases dropped) (simp_all add: set_counter_def)
  qed
qed

text \<open>
  C10. \<open>With\<close> on a sampler keeps the table of counters, the tick, \<open>first\<close> and
  \<open>thereafter\<close>, and binds the fields in the inner core. So a check through the parent
  followed by a check through the child, for the same bucket, leaves in the one bucket
  what two calls of \<open>IncCheckReset\<close> in a row leave: both draw on the same count.
\<close>

theorem sampler_With_shares:
  "core_With (Sampler c a tk f m) fs = Sampler (core_With c fs) a tk f m
   \<and> (core_Enabled c (Level ent) \<and> a \<notin> sampler_tables c
        \<and> counters_get (Level ent) (Message ent) = ij
        \<and> core_Enabled c (Level ent') \<and> counters_get (Level ent') (Message ent') = ij
      \<longrightarrow> heap (snd (core_Check (core_With (Sampler c a tk f m) fs) ent' ce'
                        (snd (core_Check (Sampler c a tk f m) ent ce w)))) a ij
          = snd (IncCheckReset (snd (IncCheckReset (heap w a ij) (Time ent) tk)) (Time ent') tk))"
proof (intro conjI impI)
  show "core_With (Sampler c a tk f m) fs = Sampler (core_With c fs) a tk f m" by simp
next
  assume h: "core_Enabled c (Level ent) \<and> a \<notin> sampler_tables c
        \<and> counters_get (Level ent) (Message ent) = ij
        \<and> core_Enabled c (Level ent') \<and> counters_get (Level ent') (Message ent') = ij"
  let ?w1 = "snd (core_Check (Sampler c a tk f m) ent ce w)"
  from h have parent: "heap ?w1 a ij = snd (IncCheckReset (heap w a ij) (Time ent) tk)"
    using sampler_Check_cell [of c ent a tk f m ce w] by simp
  from h have en: "core_Enabled (core_With c fs) (Level ent')"
    and na: "a \<notin> sampler_tables (core_With c fs)"
    by (simp_all add: core_With_Enabled sampler_tables_With)
  from h have "heap (snd (core_Check (Sampler (core_With c fs) a tk f m) ent' ce' ?w1)) a ij
      = snd (IncCheckReset (heap ?w1 a ij) (Time ent') tk)"
    using sampler_Check_cell [OF en na, of tk f m ce' ?w1] by simp
  with parent show "heap (snd (core_Check (core_With (Sampler c a tk f m) fs) ent' ce'
                        (snd (core_Check (Sampler c a tk f m) ent ce w)))) a ij
          = snd (IncCheckReset (snd (IncCheckReset (heap w a ij) (Time ent) tk)) (Time ent') tk)"
    by simp
qed

theorem sampler_With_shares_witness:
  "heap (snd (core_Check (core_With (sampled_core 1 100) [Field ''k'' ''v''])
                (entry_at InfoLevel 6 ''m'') None
                (snd (core_Check (sampled_core 1 100) (entry_at InfoLevel 5 ''m'') None world0))))
        0 (counters_get InfoLevel ''m'')
     = \<lparr>resetAt = 1005, counter = 2\<rparr>
   \<and> fst (core_Check (sampled_core 1 100) (entry_at InfoLevel 5 ''m'') None world0) \<noteq> Ok None
   \<and> fst (core_Check (core_With (sampled_core 1 100) [Field ''k'' ''v''])
                (entry_at InfoLevel 6 ''m'') None
                (snd (core_Check (sampled_core 1 100) (entry_at InfoLevel 5 ''m'') None world0)))
     = Ok None
   \<and> fst (core_Check (core_With (sampled_core 1 100) [Field ''k'' ''v''])
                (entry_at InfoLevel 6 ''m'') None world0) \<noteq> Ok None"
proof -
  have cell: "heap (snd (core_Check (core_With (sampled_core 1 100) [Field ''k'' ''v''])
                (entry_at InfoLevel 6 ''m'') None
                (snd (core_Check (sampled_core 1 100) (entry_at InfoLevel 5 ''m'') None world0))))
        0 (counters_get InfoLevel ''m'')
     = \<lparr>resetAt = 1005, counter = 2\<rparr>"
    using sampler_With_shares [of "IoCore all_levels enc_ok (ws_ok 1)" 0 1000 1 100
        "[Field ''k'' ''v'']" "entry_at InfoLevel 5 ''m''" "counters_get InfoLevel ''m''"
        "entry_at InfoLevel 6 ''m''" None None world0]
    by (simp add: sampled_core_def entry_at_def all_levels_def world0_def newCounters_def
        IncCheckReset_def word_sless_alt)
  have decisions:
    "fst (core_Check (sampled_core 1 100) (entry_at InfoLevel 5 ''m'') None world0) \<noteq> Ok None"
    "fst (core_Check (core_With (sampled_core 1 100) [Field ''k'' ''v''])
                (entry_at InfoLevel 6 ''m'') None
                (snd (core_Check (sampled_core 1 100) (entry_at InfoLevel 5 ''m'') None world0)))
     = Ok None"
    "fst (core_Check (core_With (sampled_core 1 100) [Field ''k'' ''v''])
                (entry_at InfoLevel 6 ''m'') None world0) \<noteq> Ok None"
    by (simp_all add: sampled_core_def entry_at_def all_levels_def world0_def newCounters_def
        IncCheckReset_def sampler_drops_def uint64_mod_def AddCore_def getCheckedEntry_def
        Let_def word_sless_alt)
  from cell decisions show ?thesis by simp
qed

section \<open>Panic and Fatal\<close>

lemma getCheckedEntry_fresh:
  "getCheckedEntry w = (c, w1) \<Longrightarrow>
     \<not> dirty c \<and> cores c = [] \<and> should c = WriteThenNoop \<and> ErrorOutput c = None"
  by (auto simp: getCheckedEntry_def reset_def split: list.splits)

lemma AddCore_stamped:
  "stamped ent ce \<Longrightarrow> stamped ent (Some (fst (AddCore ce ent c w)))"
  by (cases ce; cases "getCheckedEntry w")
     (auto simp: stamped_def AddCore_def dest: getCheckedEntry_fresh)

lemma core_Check_stamped:
  "stamped ent ce \<Longrightarrow> core_Check c ent ce w = (Ok ce', w') \<Longrightarrow> stamped ent ce'"
  "stamped ent ce \<Longrightarrow> multiCore_Check mc ent ce w = (Ok ce', w') \<Longrightarrow> stamped ent ce'"
proof (induction c ent ce w and mc ent ce w arbitrary: ce' w' and ce' w'
    rule: core_Check_multiCore_Check.induct)
  case (1 ent ce w)
  then show ?case by simp
next
  case (2 en e ws ent ce w)
  then show ?case
    using AddCore_stamped [of ent ce "IoCore en e ws" w]
    by (auto simp: split_beta split: if_splits)
next
  case (3 mc ent ce w)
  then show ?case by simp
next
  case (4 c b tk f m ent ce w)
  show ?case
  proof (cases "core_Enabled c (Level ent)")
    case False
    with "4.prems" show ?thesis by simp
  next
    case True
    obtain n cnt where inc: "IncCheckReset (heap w b (counters_get (Level ent) (Message ent))) (Time ent) tk = (n, cnt)"
      by (cases "IncCheckReset (heap w b (counters_get (Level ent) (Message ent))) (Time ent) tk")
    show ?thesis
    proof (cases "sampler_drops n f m")
      case (Panic p)
      with True inc "4.prems" show ?thesis by simp
    next
      case (Ok dropped)
      show ?thesis
      proof (cases dropped)
        case True
        with \<open>core_Enabled c (Level ent)\<close> inc Ok "4.prems" show ?thesis by simp
      next
        case False
        with "4.IH" [OF _ refl inc [symmetric] refl Ok _ "4.prems"(1)]
          \<open>core_Enabled c (Level ent)\<close> inc Ok "4.prems"(2)
        show ?thesis by simp
      qed
    qed
  qed
next
  case (5 ent ce w)
  then show ?case by simp
next
  case (6 c mc ent ce w)
  obtain r w1 where r: "core_Check c ent ce w = (r, w1)" by (cases "core_Check c ent ce w")
  show ?case
  proof (cases r)
    case (Panic p)
    with r "6.prems" show ?thesis by simp
  next
    case (Ok ce1)
    from "6.IH"(1) [OF "6.prems"(1)] r Ok have s1: "stamped ent ce1" by simp
    from "6.IH"(2) [OF r [symmetric] Ok s1] r Ok "6.prems"(2) show ?thesis by simp
  qed
qed

lemma Should_props:
  assumes "stamped ent ce" and "Should ce ent sh w = (c, w1)"
  shows "should c = sh \<and> \<not> dirty c \<and> Entry c = ent
         \<and> cores c = (case ce of None \<Rightarrow> [] | Some c0 \<Rightarrow> cores c0)"
  using assms
  by (cases ce; cases "getCheckedEntry w")
     (auto simp: stamped_def Should_def dest: getCheckedEntry_fresh)

lemma Logger_annotate_props:
  assumes "Logger_annotate log rt c w = (c4, w3)"
  shows "should c4 = should c \<and> dirty c4 = dirty c \<and> Message (Entry c4) = Message (Entry c)
         \<and> cores c4 = cores c"
  using assms
  by (auto simp: Logger_annotate_def Let_def split: if_splits)

lemma ce_write_cores_member_writes:
  "ce_write_cores cs ent fs er w =
     (foldl multierr_Append er (fst (member_writes cs ent fs w)), snd (member_writes cs ent fs w))"
  by (induction cs arbitrary: er w) (simp_all add: split_beta)

lemma CheckedEntry_Write_clean:
  assumes "\<not> dirty ce"
  shows "fst (CheckedEntry_Write (Some ce) fs w) =
           (case should ce of
              WriteThenPanic \<Rightarrow> Panicked (Message (Entry ce))
            | WriteThenFatal \<Rightarrow> Exited
            | WriteThenNoop \<Rightarrow> Returned)"
    and "trace (snd (snd (CheckedEntry_Write (Some ce) fs w))) =
           trace (snd (member_writes (cores ce) (Entry ce) fs w))
           @ (case ErrorOutput ce of
                None \<Rightarrow> []
              | Some eo \<Rightarrow>
                  (case foldl multierr_Append None (fst (member_writes (cores ce) (Entry ce) fs w)) of
                     None \<Rightarrow> []
                   | Some e \<Rightarrow> [EvWrite (ws_id eo) (WriteErrorReport e), EvSync (ws_id eo)]))"
  using assms
  by (simp_all add: CheckedEntry_Write_def Let_def split_beta ce_write_cores_member_writes
      putCheckedEntry_def report_def ws_Write_def ws_Sync_def
      split: CheckWriteAction.splits option.splits)


lemma Logger_terminal_props:
  assumes "stamped ent ce"
    and "Level ent = PanicLevel \<or> Level ent = FatalLevel
         \<or> (Level ent = DPanicLevel \<and> development log)"
    and "Logger_terminal log ent ce w = (ce2, w2)"
  shows "\<exists>c. ce2 = Some c
           \<and> should c = (if Level ent = FatalLevel then WriteThenFatal else WriteThenPanic)
           \<and> \<not> dirty c \<and> Entry c = ent
           \<and> cores c = (case ce of None \<Rightarrow> [] | Some c0 \<Rightarrow> cores c0)"
proof -
  let ?sh = "if Level ent = FatalLevel then WriteThenFatal else WriteThenPanic"
  obtain c w1 where sh: "Should ce ent ?sh w = (c, w1)" by (cases "Should ce ent ?sh w")
  from assms(2,3) sh have "ce2 = Some c"
    by (auto simp: Logger_terminal_def)
  with Should_props [OF assms(1) sh] show ?thesis by simp
qed

text \<open>
  Take a call of the logger at \<open>PanicLevel\<close>, at \<open>FatalLevel\<close>, or at \<open>DPanicLevel\<close> in
  development mode, and let \<open>Check\<close> of the core return. Then \<open>check\<close> gives a checked
  entry that is not nil and holds the terminal action, with exactly the cores that
  \<open>Check\<close> collected, none when no core agreed to log. The call ends in a panic with the
  message, at \<open>FatalLevel\<close> in the exit of the process, after every core on the entry
  has written in turn, whatever each returned: the trace is that of the members'
  writes, followed by the report of their errors on the error output, if there is one
  and any write failed.
\<close>

lemma terminal_after_write:
  assumes "fst (core_Check (core log) (Logger_Entry log rt lvl msg) None w) = Ok ce0"
    and "lvl = PanicLevel \<or> lvl = FatalLevel \<or> (lvl = DPanicLevel \<and> development log)"
  shows "\<exists>ce w1. Logger_check log rt lvl msg w = (Ok (Some ce), w1)
           \<and> should ce = (if lvl = FatalLevel then WriteThenFatal else WriteThenPanic)
           \<and> cores ce = (case ce0 of None \<Rightarrow> [] | Some c0 \<Rightarrow> cores c0)
           \<and> fst (Logger_log lvl log rt msg fs w)
               = (if lvl = FatalLevel then Exited else Panicked msg)
           \<and> trace (snd (Logger_log lvl log rt msg fs w))
               = trace (snd (member_writes (cores ce) (Entry ce) fs w1))
                 @ (case ErrorOutput ce of
                      None \<Rightarrow> []
                    | Some eo \<Rightarrow>
                        (case foldl multierr_Append None
                                (fst (member_writes (cores ce) (Entry ce) fs w1)) of
                           None \<Rightarrow> []
                         | Some e \<Rightarrow> [EvWrite (ws_id eo) (WriteErrorReport e),
                                       EvSync (ws_id eo)]))"
proof -
  let ?ent = "Logger_Entry log rt lvl msg"
  obtain w0 where chk: "core_Check (core log) ?ent None w = (Ok ce0, w0)"
    using assms(1) by (cases "core_Check (core log) ?ent None w") simp
  have st0: "stamped ?ent ce0"
    using core_Check_stamped(1) [OF _ chk] by (simp add: stamped_def)
  have lv: "Level ?ent = lvl" and ms: "Message ?ent = msg"
    by (simp_all add: Logger_Entry_def)
  obtain ce2 w2 where tm: "Logger_terminal log ?ent ce0 w0 = (ce2, w2)"
    by (cases "Logger_terminal log ?ent ce0 w0")
  from Logger_terminal_props [OF st0 _ tm] assms(2) lv
  obtain c where c: "ce2 = Some c"
    "should c = (if lvl = FatalLevel then WriteThenFatal else WriteThenPanic)"
    "\<not> dirty c" "Entry c = ?ent"
    "cores c = (case ce0 of None \<Rightarrow> [] | Some c0 \<Rightarrow> cores c0)"
    by auto
  obtain c4 w3 where an: "Logger_annotate log rt c w2 = (c4, w3)"
    by (cases "Logger_annotate log rt c w2")
  note ap = Logger_annotate_props [OF an]
  define ce where "ce = (if ce0 = None then c else c4)"
  define w1 where "w1 = (if ce0 = None then w2 else w3)"
  have lc: "Logger_check log rt lvl msg w = (Ok (Some ce), w1)"
    using chk tm c(1) an by (simp add: Logger_check_def ce_def w1_def)
  have p: "should ce = (if lvl = FatalLevel then WriteThenFatal else WriteThenPanic)"
    "\<not> dirty ce" "Message (Entry ce) = msg"
    "cores ce = (case ce0 of None \<Rightarrow> [] | Some c0 \<Rightarrow> cores c0)"
    using c ap ms by (simp_all add: ce_def)
  have ll: "Logger_log lvl log rt msg fs w =
      (fst (CheckedEntry_Write (Some ce) fs w1), snd (snd (CheckedEntry_Write (Some ce) fs w1)))"
    using lc by (simp add: Logger_log_def split_beta)
  have oc: "fst (Logger_log lvl log rt msg fs w) = (if lvl = FatalLevel then Exited else Panicked msg)"
    using ll CheckedEntry_Write_clean(1) [OF p(2), of fs w1] p(1,3) by simp
  have tr: "trace (snd (Logger_log lvl log rt msg fs w))
               = trace (snd (member_writes (cores ce) (Entry ce) fs w1))
                 @ (case ErrorOutput ce of
                      None \<Rightarrow> []
                    | Some eo \<Rightarrow>
                        (case foldl multierr_Append None
                                (fst (member_writes (cores ce) (Entry ce) fs w1)) of
                           None \<Rightarrow> []
                         | Some e \<Rightarrow> [EvWrite (ws_id eo) (WriteErrorReport e),
                                       EvSync (ws_id eo)]))"
    using ll CheckedEntry_Write_clean(2) [OF p(2), of fs w1] by simp
  from lc p(1,4) oc tr show ?thesis by blast
qed

lemma terminal_after_write_example:
  "Logger_Fatal (logger_of (IoCore no_level enc_ok (ws_ok 1))) rt0 ''m'' [] world0
     = (Exited, world0\<lparr>cePool :=
          [\<lparr>Entry = Logger_Entry (logger_of (IoCore no_level enc_ok (ws_ok 1))) rt0 FatalLevel ''m'',
            ErrorOutput = None, dirty = True, should = WriteThenFatal, cores = []\<rparr>]\<rparr>)
   \<and> fst (Logger_Panic (logger_of (IoCore all_levels enc_ok (ws_broken 1))) rt0 ''m'' [] world0)
       = Panicked ''m''
   \<and> trace (snd (Logger_Panic (logger_of (IoCore all_levels enc_ok (ws_broken 1))) rt0 ''m'' []
        world0))
       = [EvWrite 1 (Bytes ''m''), EvFree ''m'',
          EvWrite 9 (WriteErrorReport (ErrorString ''write failed'')), EvSync 9]
   \<and> fst (Logger_DPanic ((logger_of NopCore)\<lparr>development := True\<rparr>) rt0 ''m'' [] world0)
       = Panicked ''m''"
  by (simp add: Logger_Fatal_def Logger_Panic_def Logger_DPanic_def Logger_log_def
      Logger_check_def Logger_Entry_def Logger_terminal_def Logger_annotate_def logger_of_def
      rt0_def no_level_def all_levels_def world0_def Should_def AddCore_def getCheckedEntry_def
      reset_def new_CheckedEntry_def zero_Entry_def CheckedEntry_Write_def putCheckedEntry_def
      ioCore_Write_def EncodeEntry_def enc_ok_def ws_ok_def ws_broken_def ws_Write_def
      ws_Sync_def buf_Free_def report_def level_gt_def Let_def)

text \<open>
  C4. A call at \<open>FatalLevel\<close> is to end in the exit of the process, after the writes of
  the collected cores. With a sampler whose \<open>thereafter\<close> is 0 as the core of the logger
  it does not: \<open>check\<close> asks the core first, \<open>sampler.Check\<close> counts the entry and
  panics on the zero divisor, and \<open>Fatal\<close> ends in that panic. The terminal action is
  never set, nothing is written and no checked entry is taken from or put into the pool.
\<close>

theorem fatal_with_zero_thereafter:
  "Logger_Fatal (logger_of (sampled_core 0 0)) rt0 ''m'' [] world0
     = (Panicked ''runtime error: integer divide by zero'',
        set_counter 0 (counters_get FatalLevel ''m'') \<lparr>resetAt = 1005, counter = 1\<rparr> world0)"
  by (simp add: Logger_Fatal_def Logger_log_def Logger_check_def Logger_Entry_def logger_of_def
      rt0_def sampled_core_def all_levels_def world0_def newCounters_def IncCheckReset_def
      sampler_drops_def uint64_mod_def set_counter_def Let_def word_sless_alt)

end
